theory Spec2Isabelle
  imports Main
begin

section \<open>Overview\<close>

text \<open>
  A shallow embedding of four classes of the NativeScript command line tools, and the
  properties of the synchronisation design that they decide:
  \<^item> \<^verbatim>\<open>AndroidDeviceLiveSyncServiceBase\<close>: which files a transfer pushes, and what happens
    to the table of fingerprints on the device (claims C1, C4, C5);
  \<^item> \<^verbatim>\<open>LogParserService\<close>: the registration of parse rules and their dispatch on the lines
    of a device log (claims C8, C10);
  \<^item> \<^verbatim>\<open>HmrStatusService\<close>: the status that a log line records and the polling wait for it
    (claims C6, C7);
  \<^item> \<^verbatim>\<open>PreviewAppLiveSyncService\<close>: the payload of a sync cycle, the initialization per
    device and the cycles started by the hook (claims C9, C3, C2).

  The definitions come first, class by class, then the theorems. Code that awaits is
  modelled by what happens between two suspensions: a call up to its first \<^verbatim>\<open>await\<close>, the
  settling of a promise, the firing of a timer. JavaScript runs each of these to its end
  before the next begins.

  The dictionaries of these classes are plain JavaScript objects, created by \<^verbatim>\<open>{}\<close>: reading
  a key that is no own property gives what \<^verbatim>\<open>Object.prototype\<close> has under that name. The
  models of \<^verbatim>\<open>parseRules\<close> and \<^verbatim>\<open>deviceInitializationPromise\<close>, whose keys are rule names and
  device identifiers, follow this. The two dictionaries of \<^verbatim>\<open>HmrStatusService\<close> are modelled
  by their own properties: their keys, a device identifier followed by a hash, are taken
  to be none of the inherited names.
\<close>

section \<open>Device transfer: AndroidDeviceLiveSyncServiceBase\<close>

text \<open>
  The class in \<^verbatim>\<open>src/test/project-service.ts\<close> (lines 561 to 613) pushes project files
  to an Android device and keeps a table of content hashes on the device. The device and
  its transport are outside the class; they are modelled as an explicit device state and
  a transport whose calls may fail.
\<close>

type_synonym IStringDictionary = "(string \<times> string) list"

record LocalToDevicePathData =
  getLocalPath :: string
  getDevicePath :: string
  getRelativeToProjectBasePath :: string

record ITransferFilesOptions =
  force :: bool
  isFullSync :: bool

datatype transport_call =
    DeleteFile string
  | TransferDirectoryOnDevice "LocalToDevicePathData list" string
  | TransferFilesOnDevice "LocalToDevicePathData list"
  | UpdateHashesOnDevice IStringDictionary

text \<open>
  What the code throws: a failed transport call, or a JavaScript \<^verbatim>\<open>Error\<close> with its
  message.
\<close>

datatype error = TransportError transport_call | Error string

text \<open>
  The device: the content of the hash file kept on it (\<open>None\<close> when the file does not
  exist) and the transport calls that have completed on it, oldest first.
\<close>

record device =
  hashFile :: "IStringDictionary option"
  calls :: "transport_call list"

text \<open>
  The transport: the calls that fail (every other call completes), and the path of the
  hash file on the device (\<^verbatim>\<open>deviceHashService.hashFileDevicePath\<close>).
\<close>

record transport =
  failing :: "transport_call list"
  hashFileDevicePath :: string

definition succeeds :: "transport \<Rightarrow> transport_call \<Rightarrow> bool" where
  "succeeds t c = (c \<notin> set (failing t))"

text \<open>
  A call that throws leaves the device as it was at the throw; every operation returns
  its outcome together with the device.
\<close>

type_synonym 'a io = "device \<Rightarrow> (error + 'a) \<times> device"

text \<open>
  Modelled from the spec: \<^verbatim>\<open>device.fileSystem.deleteFile\<close> is not in the sources. It
  is the transport's \<^verbatim>\<open>deleteFile(target, path) -> ack\<close>; deleting the hash file is the
  spec's \<^verbatim>\<open>clear(deviceId)\<close>, which drops the whole table for a device.
\<close>

definition deleteFile :: "transport \<Rightarrow> string \<Rightarrow> unit io" where
  "deleteFile t path d =
     (if succeeds t (DeleteFile path)
      then (Inr (),
            d\<lparr>hashFile := (if path = hashFileDevicePath t then None else hashFile d),
              calls := calls d @ [DeleteFile path]\<rparr>)
      else (Inl (TransportError (DeleteFile path)), d))"

text \<open>
  Modelled from the spec: the abstract methods \<^verbatim>\<open>transferDirectoryOnDevice\<close> and
  \<^verbatim>\<open>transferFilesOnDevice\<close> have no body in the sources. They are the transport's
  \<^verbatim>\<open>sendFiles(target, files) -> ack\<close>: the call either completes or fails.
\<close>

definition transferDirectoryOnDevice ::
  "transport \<Rightarrow> LocalToDevicePathData list \<Rightarrow> string \<Rightarrow> unit io" where
  "transferDirectoryOnDevice t localToDevicePaths projectFilesPath d =
     (let c = TransferDirectoryOnDevice localToDevicePaths projectFilesPath
      in if succeeds t c then (Inr (), d\<lparr>calls := calls d @ [c]\<rparr>)
         else (Inl (TransportError c), d))"

definition transferFilesOnDevice ::
  "transport \<Rightarrow> LocalToDevicePathData list \<Rightarrow> unit io" where
  "transferFilesOnDevice t localToDevicePaths d =
     (let c = TransferFilesOnDevice localToDevicePaths
      in if succeeds t c then (Inr (), d\<lparr>calls := calls d @ [c]\<rparr>)
         else (Inl (TransportError c), d))"

text \<open>
  Modelled from the spec: \<^verbatim>\<open>device.fileSystem.updateHashesOnDevice\<close> is not in the
  sources. It is the transport's \<^verbatim>\<open>setFingerprints(target, table)\<close>.
\<close>

definition updateHashesOnDevice :: "transport \<Rightarrow> IStringDictionary \<Rightarrow> unit io" where
  "updateHashesOnDevice t hashes d =
     (let c = UpdateHashesOnDevice hashes
      in if succeeds t c then (Inr (), d\<lparr>hashFile := Some hashes, calls := calls d @ [c]\<rparr>)
         else (Inl (TransportError c), d))"

text \<open>
  Modelled from the spec: \<^verbatim>\<open>deviceHashService.getShasumsFromDevice\<close> is not in the
  sources. It is the transport's \<^verbatim>\<open>getFingerprints(target) -> table\<close>; it yields
  nothing when the device has no hash file.
\<close>

definition getShasumsFromDevice :: "device \<Rightarrow> IStringDictionary option" where
  "getShasumsFromDevice d = hashFile d"

text \<open>
  Modelled from the spec: \<^verbatim>\<open>deviceHashService.getChangedShasums\<close> is not in the
  sources. It is the spec's \<^verbatim>\<open>diff\<close>: a path is changed if it is absent from the stored
  table or its stored fingerprint differs from the current fingerprint for that path.
\<close>

definition getChangedShasums :: "IStringDictionary \<Rightarrow> IStringDictionary \<Rightarrow> IStringDictionary" where
  "getChangedShasums oldHashes currentHashes =
     filter (\<lambda>(file, hash). map_of oldHashes file \<noteq> Some hash) currentHashes"

text \<open>\<^verbatim>\<open>_.keys\<close> of a dictionary, and \<^verbatim>\<open>xs.indexOf(x) >= 0\<close>.\<close>

definition keys :: "IStringDictionary \<Rightarrow> string list" where
  "keys dict = map fst dict"

definition getChangedLocalToDevicePaths ::
  "device \<Rightarrow> LocalToDevicePathData list \<Rightarrow> IStringDictionary \<Rightarrow> LocalToDevicePathData list" where
  "getChangedLocalToDevicePaths d localToDevicePaths currentHashes =
     (let oldHashes = (case getShasumsFromDevice d of Some h \<Rightarrow> h | None \<Rightarrow> []);
          changedHashes = getChangedShasums oldHashes currentHashes;
          changedFiles = keys changedHashes
      in filter (\<lambda>localToDevicePathData. getLocalPath localToDevicePathData \<in> set changedFiles)
           localToDevicePaths)"

definition getLocalToDevicePathsToTransfer ::
  "device \<Rightarrow> LocalToDevicePathData list \<Rightarrow> IStringDictionary \<Rightarrow> ITransferFilesOptions
     \<Rightarrow> LocalToDevicePathData list" where
  "getLocalToDevicePathsToTransfer d localToDevicePaths currentHashes options =
     (if force options \<or> \<not> isFullSync options then localToDevicePaths
      else getChangedLocalToDevicePaths d localToDevicePaths currentHashes)"

definition transferFilesCore ::
  "transport \<Rightarrow> LocalToDevicePathData list \<Rightarrow> string \<Rightarrow> IStringDictionary
     \<Rightarrow> ITransferFilesOptions \<Rightarrow> (LocalToDevicePathData list) io" where
  "transferFilesCore t localToDevicePaths projectFilesPath currentHashes options d =
     (if force options \<and> isFullSync options then
        (case deleteFile t (hashFileDevicePath t) d of
           (Inl e, d1) \<Rightarrow> (Inl e, d1)
         | (Inr _, d1) \<Rightarrow>
             (case transferDirectoryOnDevice t localToDevicePaths projectFilesPath d1 of
                (Inl e, d2) \<Rightarrow> (Inl e, d2)
              | (Inr _, d2) \<Rightarrow> (Inr localToDevicePaths, d2)))
      else
        (let localToDevicePathsToTransfer =
               getLocalToDevicePathsToTransfer d localToDevicePaths currentHashes options
         in case transferFilesOnDevice t localToDevicePathsToTransfer d of
              (Inl e, d1) \<Rightarrow> (Inl e, d1)
            | (Inr _, d1) \<Rightarrow> (Inr localToDevicePathsToTransfer, d1)))"

text \<open>
  \<^verbatim>\<open>transferFiles\<close>. The current hashes come from
  \<^verbatim>\<open>deviceHashService.generateHashesFromLocalToDevicePaths(localToDevicePaths)\<close>, which
  reads the local file system and is not in the sources: the dictionary it returns is the
  parameter \<open>generatedHashes\<close>.
\<close>

definition transferFiles ::
  "transport \<Rightarrow> IStringDictionary
     \<Rightarrow> LocalToDevicePathData list \<Rightarrow> string \<Rightarrow> ITransferFilesOptions
     \<Rightarrow> (LocalToDevicePathData list) io" where
  "transferFiles t generatedHashes localToDevicePaths projectFilesPath options d =
     (let currentHashes = generatedHashes
      in case transferFilesCore t localToDevicePaths projectFilesPath currentHashes options d of
           (Inl e, d1) \<Rightarrow> (Inl e, d1)
         | (Inr transferredFiles, d1) \<Rightarrow>
             (case updateHashesOnDevice t currentHashes d1 of
                (Inl e, d2) \<Rightarrow> (Inl e, d2)
              | (Inr _, d2) \<Rightarrow> (Inr transferredFiles, d2)))"

text \<open>
  The spec's wording of a changed path, for comparison with what the code computes: the
  path has a current fingerprint, and that fingerprint is absent from the stored table
  or differs from the stored one.
\<close>

definition fingerprint_changed :: "IStringDictionary \<Rightarrow> IStringDictionary \<Rightarrow> string \<Rightarrow> bool" where
  "fingerprint_changed stored current path =
     list_ex (\<lambda>(p, h). p = path \<and> map_of stored p \<noteq> Some h) current"

text \<open>Two project files, used to instantiate the theorems below.\<close>

abbreviation file_a :: LocalToDevicePathData where
  "file_a \<equiv> \<lparr>getLocalPath = ''app/a.js'', getDevicePath = ''/data/app/a.js'',
      getRelativeToProjectBasePath = ''a.js''\<rparr>"

abbreviation file_b :: LocalToDevicePathData where
  "file_b \<equiv> \<lparr>getLocalPath = ''app/b.js'', getDevicePath = ''/data/app/b.js'',
      getRelativeToProjectBasePath = ''b.js''\<rparr>"

section \<open>Log parsing: LogParserService\<close>

text \<open>
  The class in \<^verbatim>\<open>src/unnamed/part_000\<close> (lines 103 to 141) keeps a dictionary of parse
  rules and runs every rule on every line of a device log. Strings are ASCII: one
  \<open>char\<close> is one character.

  A rule's \<^verbatim>\<open>regex\<close> is what its \<^verbatim>\<open>exec\<close> computes on a line: the match array (the
  whole match, then the groups) or nothing. A rule's \<^verbatim>\<open>handler\<close> works on a state \<open>'s\<close>
  outside the parser; it returns normally or throws, and leaves the state as it is at
  that point. The optional \<^verbatim>\<open>platform\<close> is \<open>None\<close> when the rule has none.
\<close>

record 's ILogParseRule =
  regex :: "string \<Rightarrow> string list option"
  handler :: "string list \<Rightarrow> string \<Rightarrow> 's \<Rightarrow> (error + unit) \<times> 's"
  name :: string
  platform :: "string option"

text \<open>
  \<^verbatim>\<open>parseRules\<close> is a JavaScript object used as a dictionary: the list holds its own
  properties in the order of their creation. \<^verbatim>\<open>parsingStarted\<close> records that
  \<^verbatim>\<open>startParsingLogCore\<close>, which is cached, has subscribed to the log sources.
\<close>

record 's LogParserService =
  parseRules :: "(string \<times> 's ILogParseRule) list"
  parsingStarted :: bool

text \<open>\<^verbatim>\<open>dict[key] = value\<close>: an existing property keeps its place, a new one goes last.\<close>

fun dictSet :: "('k \<times> 'v) list \<Rightarrow> 'k \<Rightarrow> 'v \<Rightarrow> ('k \<times> 'v) list" where
  "dictSet [] k v = [(k, v)]"
| "dictSet ((k', v') # rest) k v =
     (if k' = k then (k, v) # rest else (k', v') # dictSet rest k v)"

text \<open>
  Modelled from the spec: \<^verbatim>\<open>$errors.failWithoutHelp\<close> is not in the sources. By the
  spec, \<^verbatim>\<open>register(rule)\<close> fails if a rule with that name already exists: the call throws
  an error with the message it is given.
\<close>

definition failWithoutHelp :: "string \<Rightarrow> error" where
  "failWithoutHelp message = Error message"

definition startParsingLogCore :: "'s LogParserService \<Rightarrow> 's LogParserService" where
  "startParsingLogCore svc = svc\<lparr>parsingStarted := True\<rparr>"

text \<open>
  The names that an object created by \<^verbatim>\<open>{}\<close> inherits from \<^verbatim>\<open>Object.prototype\<close>. Reading
  one of them from a dictionary that has no own property of that name gives the inherited
  value, a function or, for \<^verbatim>\<open>__proto__\<close>, the prototype itself: a truthy value in every
  case.
\<close>

definition inheritedNames :: "string list" where
  "inheritedNames =
     [''constructor'', ''__defineGetter__'', ''__defineSetter__'', ''hasOwnProperty'',
      ''__lookupGetter__'', ''__lookupSetter__'', ''isPrototypeOf'', ''propertyIsEnumerable'',
      ''toString'', ''valueOf'', ''__proto__'', ''toLocaleString'']"

text \<open>
  \<^verbatim>\<open>addParseRule\<close>. A rule is an object, so \<^verbatim>\<open>this.parseRules[rule.name]\<close> is truthy when
  the dictionary has the name, and also when the name is an inherited one. The result is
  the outcome of the call together with the service as the call leaves it.
\<close>

definition addParseRule ::
  "'s ILogParseRule \<Rightarrow> 's LogParserService \<Rightarrow> (error + unit) \<times> 's LogParserService" where
  "addParseRule rule svc =
     (case map_of (parseRules svc) (name rule) of
        Some _ \<Rightarrow> (Inl (failWithoutHelp ''Log parse rule already exists.''), svc)
      | None \<Rightarrow>
          (if name rule \<in> set inheritedNames
           then (Inl (failWithoutHelp ''Log parse rule already exists.''), svc)
           else (Inr (),
                 startParsingLogCore
                   (svc\<lparr>parseRules := dictSet (parseRules svc) (name rule) rule\<rparr>))))"

text \<open>\<^verbatim>\<open>message.split("\n")\<close>: the pieces between line feeds; an empty message is one empty line.\<close>

fun split_lines :: "string \<Rightarrow> string list" where
  "split_lines [] = [[]]"
| "split_lines (c # cs) =
     (if c = CHR 0x0A then [] # split_lines cs
      else (case split_lines cs of [] \<Rightarrow> [[c]] | l # ls \<Rightarrow> (c # l) # ls))"

text \<open>\<^verbatim>\<open>toLowerCase\<close> on ASCII.\<close>

definition toLowerChar :: "char \<Rightarrow> char" where
  "toLowerChar c =
     (case map_of (zip ''ABCDEFGHIJKLMNOPQRSTUVWXYZ'' ''abcdefghijklmnopqrstuvwxyz'') c of
        Some l \<Rightarrow> l | None \<Rightarrow> c)"

definition toLowerCase :: "string \<Rightarrow> string" where
  "toLowerCase s = map toLowerChar s"

text \<open>\<^verbatim>\<open>!x\<close> for an optional string: true when it is missing or empty.\<close>

definition falsy :: "string option \<Rightarrow> bool" where
  "falsy x = (x = None \<or> x = Some [])"

text \<open>
  The guard of \<^verbatim>\<open>processDeviceLogResponse\<close>:
  \<^verbatim>\<open>!devicePlatform || !parseRule.platform || parseRule.platform.toLowerCase() === devicePlatform.toLowerCase()\<close>.
\<close>

definition platformApplies :: "string option \<Rightarrow> 's ILogParseRule \<Rightarrow> bool" where
  "platformApplies devicePlatform parseRule =
     (falsy devicePlatform \<or> falsy (platform parseRule) \<or>
      map_option toLowerCase (platform parseRule) = map_option toLowerCase devicePlatform)"

text \<open>
  The order in which \<^verbatim>\<open>_.forEach\<close> visits the properties of an object: names that are
  array indices (canonical decimal numbers below \<open>2\<^sup>3\<^sup>2 - 1\<close>) first, by value, then every
  other name in the order of creation.
\<close>

definition decimal :: "string \<Rightarrow> nat" where
  "decimal k = foldl (\<lambda>n c. 10 * n + length (takeWhile (\<lambda>d. d \<noteq> c) ''0123456789'')) 0 k"

definition isArrayIndex :: "string \<Rightarrow> bool" where
  "isArrayIndex k =
     (k \<noteq> [] \<and> list_all (\<lambda>c. c \<in> set ''0123456789'') k \<and>
      (length k = 1 \<or> take 1 k \<noteq> ''0'') \<and> decimal k < 4294967295)"

definition forEachOrder :: "(string \<times> 'v) list \<Rightarrow> (string \<times> 'v) list" where
  "forEachOrder dict =
     sort_key (\<lambda>(k, v). decimal k) (filter (\<lambda>(k, v). isArrayIndex k) dict)
     @ filter (\<lambda>(k, v). \<not> isArrayIndex k) dict"

text \<open>
  The two nested loops of \<^verbatim>\<open>processDeviceLogResponse\<close>. The state of the handlers is
  threaded through, together with the list of evaluations made so far: the pairs of a
  rule's name and the line its regex was run on. A handler that throws ends both loops.
\<close>

fun forEachRule ::
  "(string \<times> 's ILogParseRule) list \<Rightarrow> string \<Rightarrow> string \<Rightarrow> string option
     \<Rightarrow> 's \<times> (string \<times> string) list \<Rightarrow> (error + unit) \<times> 's \<times> (string \<times> string) list" where
  "forEachRule [] line deviceIdentifier devicePlatform st = (Inr (), st)"
| "forEachRule ((k, parseRule) # rules) line deviceIdentifier devicePlatform (s, evaluated) =
     (if platformApplies devicePlatform parseRule then
        (case regex parseRule line of
           None \<Rightarrow>
             forEachRule rules line deviceIdentifier devicePlatform
               (s, evaluated @ [(name parseRule, line)])
         | Some matches \<Rightarrow>
             (case handler parseRule matches deviceIdentifier s of
                (Inl e, s') \<Rightarrow> (Inl e, s', evaluated @ [(name parseRule, line)])
              | (Inr _, s') \<Rightarrow>
                  forEachRule rules line deviceIdentifier devicePlatform
                    (s', evaluated @ [(name parseRule, line)])))
      else forEachRule rules line deviceIdentifier devicePlatform (s, evaluated))"

fun forEachLine ::
  "(string \<times> 's ILogParseRule) list \<Rightarrow> string list \<Rightarrow> string \<Rightarrow> string option
     \<Rightarrow> 's \<times> (string \<times> string) list \<Rightarrow> (error + unit) \<times> 's \<times> (string \<times> string) list" where
  "forEachLine rules [] deviceIdentifier devicePlatform st = (Inr (), st)"
| "forEachLine rules (line # lines) deviceIdentifier devicePlatform st =
     (case forEachRule rules line deviceIdentifier devicePlatform st of
        (Inl e, st') \<Rightarrow> (Inl e, st')
      | (Inr _, st') \<Rightarrow> forEachLine rules lines deviceIdentifier devicePlatform st')"

definition processDeviceLogResponse ::
  "'s LogParserService \<Rightarrow> string \<Rightarrow> string \<Rightarrow> string option
     \<Rightarrow> 's \<Rightarrow> (error + unit) \<times> 's \<times> (string \<times> string) list" where
  "processDeviceLogResponse svc message deviceIdentifier devicePlatform s =
     forEachLine (forEachOrder (parseRules svc)) (split_lines message)
       deviceIdentifier devicePlatform (s, [])"

text \<open>
  Sample rules, used to instantiate the theorems below. Their handlers work on a list of
  the device identifiers and match arrays they were called with. \<open>anyLine\<close> is what
  \<^verbatim>\<open>/.*/\<close> computes on a line; \<open>recordMatch\<close> notes the call; \<open>throwError\<close> throws.
\<close>

definition anyLine :: "string \<Rightarrow> string list option" where
  "anyLine line = Some [line]"

definition recordMatch ::
  "string list \<Rightarrow> string \<Rightarrow> (string \<times> string list) list
     \<Rightarrow> (error + unit) \<times> (string \<times> string list) list" where
  "recordMatch matches deviceId s = (Inr (), s @ [(deviceId, matches)])"

definition throwError ::
  "string list \<Rightarrow> string \<Rightarrow> (string \<times> string list) list
     \<Rightarrow> (error + unit) \<times> (string \<times> string list) list" where
  "throwError matches deviceId s = (Inl (Error ''handler failed''), s)"

section \<open>Hot module reload status: HmrStatusService\<close>

text \<open>
  The class in \<^verbatim>\<open>src/unnamed/part_000\<close> (lines 4 to 96). \<^verbatim>\<open>HmrConstants\<close> is imported
  from a file that is not in the sources; its two numbers are parameters.
\<close>

record HmrConstants =
  HMR_SUCCESS_STATUS :: int
  HMR_ERROR_STATUS :: int

subsection \<open>The regular expression\<close>

text \<open>
  \<^verbatim>\<open>HMR_STATUS_LOG_REGEX = /([a-z A-Z]*) hmr hash ([a-z0-9]*)\./\<close>. A starred class is
  greedy and backtracks: it takes one more character when the rest of the pattern then
  matches, and otherwise hands over to the rest of the pattern where it stands.
  \<open>star cls rest taken s\<close> has read \<open>taken\<close> for the group and looks at \<open>s\<close>.
\<close>

definition lettersAndSpace :: "char \<Rightarrow> bool" where
  "lettersAndSpace c = (c \<in> set ''abcdefghijklmnopqrstuvwxyz ABCDEFGHIJKLMNOPQRSTUVWXYZ'')"

definition lowerAndDigits :: "char \<Rightarrow> bool" where
  "lowerAndDigits c = (c \<in> set ''abcdefghijklmnopqrstuvwxyz0123456789'')"

fun star :: "(char \<Rightarrow> bool) \<Rightarrow> (string \<Rightarrow> string \<Rightarrow> 'a option) \<Rightarrow> string \<Rightarrow> string \<Rightarrow> 'a option" where
  "star cls rest taken [] = rest taken []"
| "star cls rest taken (c # cs) =
     (if cls c then
        (case star cls rest (taken @ [c]) cs of
           Some r \<Rightarrow> Some r
         | None \<Rightarrow> rest taken (c # cs))
      else rest taken (c # cs))"

fun literal :: "string \<Rightarrow> string \<Rightarrow> string option" where
  "literal [] s = Some s"
| "literal (p # ps) [] = None"
| "literal (p # ps) (c # cs) = (if p = c then literal ps cs else None)"

text \<open>A match of the whole pattern at the start of \<open>s\<close>: the match array.\<close>

definition matchHere :: "string \<Rightarrow> string list option" where
  "matchHere s =
     star lettersAndSpace
       (\<lambda>group1 s1.
          case literal '' hmr hash '' s1 of
            None \<Rightarrow> None
          | Some s2 \<Rightarrow>
              star lowerAndDigits
                (\<lambda>group2 s3.
                   case literal ''.'' s3 of
                     None \<Rightarrow> None
                   | Some _ \<Rightarrow> Some [group1 @ '' hmr hash '' @ group2 @ ''.'', group1, group2])
                [] s2)
       [] s"

text \<open>\<^verbatim>\<open>exec\<close>: the first position of the line, from the left, where the pattern matches.\<close>

fun HMR_STATUS_LOG_REGEX :: "string \<Rightarrow> string list option" where
  "HMR_STATUS_LOG_REGEX [] = matchHere []"
| "HMR_STATUS_LOG_REGEX (c # cs) =
     (case matchHere (c # cs) of
        Some m \<Rightarrow> Some m
      | None \<Rightarrow> HMR_STATUS_LOG_REGEX cs)"

definition STARTED_MESSAGE :: string where
  "STARTED_MESSAGE = ''Checking for updates to the bundle with''"

definition SUCCESS_MESSAGE :: string where
  "SUCCESS_MESSAGE = ''Successfully applied update with''"

definition FAILED_MESSAGE :: string where
  "FAILED_MESSAGE = ''Cannot apply update with''"

subsection \<open>The service\<close>

text \<open>
  A pending \<^verbatim>\<open>getHmrStatus\<close> call is its interval timer: the key it polls, the
  \<^verbatim>\<open>retryCount\<close> of its closure, whether the timer is still set, and the value its
  promise has been resolved with, if any. A status is a number, or \<open>None\<close> for
  \<^verbatim>\<open>null\<close> and \<^verbatim>\<open>undefined\<close>.
\<close>

record hmr_timer =
  timerKey :: string
  retryCount :: nat
  active :: bool
  resolved :: "int option option"

text \<open>
  \<^verbatim>\<open>hashOperationStatuses\<close> maps a key to an object with a \<^verbatim>\<open>status\<close> field;
  \<^verbatim>\<open>intervals\<close> maps a key to a timer or to \<^verbatim>\<open>null\<close>. Both are objects used as
  dictionaries: the maps hold their own properties. \<open>timers\<close> lists the timers that
  \<^verbatim>\<open>setInterval\<close> has created; a timer is known by its position.
\<close>

record HmrStatusService =
  hashOperationStatuses :: "string \<rightharpoonup> int option"
  intervals :: "string \<rightharpoonup> nat option"
  timers :: "hmr_timer list"

text \<open>JavaScript truthiness of a status.\<close>

definition truthy :: "int option \<Rightarrow> bool" where
  "truthy status = (case status of None \<Rightarrow> False | Some n \<Rightarrow> n \<noteq> 0)"

definition getStatusByKey :: "HmrStatusService \<Rightarrow> string \<Rightarrow> int option" where
  "getStatusByKey s k =
     (case hashOperationStatuses s k of
        Some entry \<Rightarrow> entry
      | None \<Rightarrow> None)"

definition setData :: "int \<Rightarrow> string \<Rightarrow> string \<Rightarrow> HmrStatusService \<Rightarrow> HmrStatusService" where
  "setData status operationHash deviceId s =
     (let k = deviceId @ operationHash;
          s1 = (if hashOperationStatuses s k = None
                then s\<lparr>hashOperationStatuses := (hashOperationStatuses s)(k \<mapsto> None)\<rparr>
                else s)
      in s1\<lparr>hashOperationStatuses := (hashOperationStatuses s1)(k \<mapsto> Some status)\<rparr>)"

text \<open>\<^verbatim>\<open>trim\<close> on ASCII: tab, line feed, vertical tab, form feed, carriage return, space.\<close>

definition isWhiteSpace :: "char \<Rightarrow> bool" where
  "isWhiteSpace c = (c \<in> set [CHR 0x09, CHR 0x0A, CHR 0x0B, CHR 0x0C, CHR 0x0D, CHR 0x20])"

definition trim :: "string \<Rightarrow> string" where
  "trim s = rev (dropWhile isWhiteSpace (rev (dropWhile isWhiteSpace s)))"

text \<open>
  \<^verbatim>\<open>handleHmrStatusFound\<close>. \<^verbatim>\<open>matches[1].trim()\<close> throws a \<^verbatim>\<open>TypeError\<close> when the match
  array has no second entry; a missing third entry is \<^verbatim>\<open>undefined\<close> and prints as such
  in the key.
\<close>

definition handleHmrStatusFound ::
  "HmrConstants \<Rightarrow> string list \<Rightarrow> string \<Rightarrow> HmrStatusService \<Rightarrow> (error + unit) \<times> HmrStatusService" where
  "handleHmrStatusFound c matches deviceId s =
     (case matches of
        _ # group1 # groups \<Rightarrow>
          (let message = trim group1;
               hash = (case groups of [] \<Rightarrow> ''undefined'' | group2 # _ \<Rightarrow> group2);
               status = (if message = SUCCESS_MESSAGE then Some (HMR_SUCCESS_STATUS c)
                         else if message = FAILED_MESSAGE then Some (HMR_ERROR_STATUS c)
                         else None)
           in case status of
                Some n \<Rightarrow> (if truthy status then (Inr (), setData n hash deviceId s) else (Inr (), s))
              | None \<Rightarrow> (Inr (), s))
      | _ \<Rightarrow> (Inl (Error ''TypeError''), s))"

text \<open>
  \<^verbatim>\<open>attachToHmrStatusEvent\<close> registers the one rule of the service. The method is
  cached: this is its first call, later calls do nothing.
\<close>

definition hmrStatusRule :: "HmrConstants \<Rightarrow> HmrStatusService ILogParseRule" where
  "hmrStatusRule c =
     \<lparr>regex = HMR_STATUS_LOG_REGEX, handler = handleHmrStatusFound c,
      name = ''hmrStatus'', platform = None\<rparr>"

definition attachToHmrStatusEvent ::
  "HmrConstants \<Rightarrow> HmrStatusService LogParserService
     \<Rightarrow> (error + unit) \<times> HmrStatusService LogParserService" where
  "attachToHmrStatusEvent c svc = addParseRule (hmrStatusRule c) svc"

text \<open>
  \<^verbatim>\<open>getHmrStatus\<close> creates a timer with \<^verbatim>\<open>retryCount = 40\<close> and stores it under the key;
  the result is the new timer, whose promise is pending.
\<close>

definition getHmrStatus :: "string \<Rightarrow> string \<Rightarrow> HmrStatusService \<Rightarrow> nat \<times> HmrStatusService" where
  "getHmrStatus deviceId operationHash s =
     (let k = deviceId @ operationHash;
          timer = length (timers s)
      in (timer,
          s\<lparr>intervals := (intervals s)(k \<mapsto> Some timer),
            timers := timers s @ [\<lparr>timerKey = k, retryCount = 40, active = True, resolved = None\<rparr>]\<rparr>))"

text \<open>\<^verbatim>\<open>clearInterval(x)\<close>: nothing for \<^verbatim>\<open>null\<close> and \<^verbatim>\<open>undefined\<close>.\<close>

definition clearInterval :: "nat option option \<Rightarrow> HmrStatusService \<Rightarrow> HmrStatusService" where
  "clearInterval x s =
     (case x of
        Some (Some timer) \<Rightarrow>
          (if timer < length (timers s)
           then s\<lparr>timers := (timers s)[timer := (timers s ! timer)\<lparr>active := False\<rparr>]\<rparr>
           else s)
      | _ \<Rightarrow> s)"

text \<open>\<^verbatim>\<open>resolve(status)\<close> settles the promise of the timer once; later calls do nothing.\<close>

definition resolve :: "nat \<Rightarrow> int option \<Rightarrow> HmrStatusService \<Rightarrow> HmrStatusService" where
  "resolve timer status s =
     (if resolved (timers s ! timer) = None
      then s\<lparr>timers := (timers s)[timer := (timers s ! timer)\<lparr>resolved := Some status\<rparr>]\<rparr>
      else s)"

text \<open>
  One run of the callback that \<^verbatim>\<open>getHmrStatus\<close> hands to \<^verbatim>\<open>setInterval\<close>. The callback
  of a timer runs every 250 milliseconds for as long as the timer is set.
\<close>

definition intervalCallback :: "nat \<Rightarrow> HmrStatusService \<Rightarrow> HmrStatusService" where
  "intervalCallback timer s =
     (if timer < length (timers s) \<and> active (timers s ! timer) then
        (let k = timerKey (timers s ! timer);
             status = getStatusByKey s k
         in if truthy status \<or> retryCount (timers s ! timer) = 0 then
              (let s1 = clearInterval (intervals s k) s;
                   s2 = s1\<lparr>intervals := (intervals s1)(k \<mapsto> None)\<rparr>
               in resolve timer status s2)
            else
              s\<lparr>timers := (timers s)
                   [timer := (timers s ! timer)\<lparr>retryCount := retryCount (timers s ! timer) - 1\<rparr>]\<rparr>)
      else s)"

text \<open>
  What can happen to the service: a call of \<^verbatim>\<open>getHmrStatus\<close>, a timer firing, and a
  device log event, handled by the parser that holds the service's rule.
\<close>

datatype hmr_event =
    Wait string string
  | Fire nat
  | DeviceLog string string "string option"

text \<open>The parser after \<^verbatim>\<open>attachToHmrStatusEvent\<close>.\<close>

definition hmrParser :: "HmrConstants \<Rightarrow> HmrStatusService LogParserService" where
  "hmrParser c = snd (attachToHmrStatusEvent c \<lparr>parseRules = [], parsingStarted = False\<rparr>)"

fun hmr_step :: "HmrConstants \<Rightarrow> hmr_event \<Rightarrow> HmrStatusService \<Rightarrow> HmrStatusService" where
  "hmr_step c (Wait deviceId operationHash) s = snd (getHmrStatus deviceId operationHash s)"
| "hmr_step c (Fire timer) s = intervalCallback timer s"
| "hmr_step c (DeviceLog message deviceIdentifier devicePlatform) s =
     fst (snd (processDeviceLogResponse (hmrParser c) message deviceIdentifier devicePlatform s))"

fun hmr_run :: "HmrConstants \<Rightarrow> hmr_event list \<Rightarrow> HmrStatusService \<Rightarrow> HmrStatusService" where
  "hmr_run c [] s = s"
| "hmr_run c (e # es) s = hmr_run c es (hmr_step c e s)"

text \<open>The service as the constructor leaves it.\<close>

definition newHmrStatusService :: HmrStatusService where
  "newHmrStatusService = \<lparr>hashOperationStatuses = Map.empty, intervals = Map.empty, timers = []\<rparr>"

section \<open>Preview synchronisation: PreviewAppLiveSyncService\<close>

text \<open>
  The class in \<^verbatim>\<open>src/test/project-service.ts\<close> (lines 366 to 557).
\<close>

subsection \<open>The payload of a sync cycle\<close>

text \<open>
  The folder names come from a constants file that is not in the sources; they are
  parameters. The event names come from \<^verbatim>\<open>preview-app-constants\<close>, which is not in the
  sources either.
\<close>

record constants =
  APP_FOLDER_NAME :: string
  APP_RESOURCES_FOLDER_NAME :: string
  TNS_MODULES_FOLDER_NAME :: string

text \<open>
  Modelled from the spec: \<^verbatim>\<open>PreviewSdkEventNames\<close> is not in the sources. By the spec a
  sync cycle emits, per affected file, an entry whose event is \<^verbatim>\<open>"change"\<close> or \<^verbatim>\<open>"unlink"\<close>.
\<close>

definition CHANGE_EVENT_NAME :: string where
  "CHANGE_EVENT_NAME = ''change''"

definition UNLINK_EVENT_NAME :: string where
  "UNLINK_EVENT_NAME = ''unlink''"

definition excludedFileExtensions :: "string list" where
  "excludedFileExtensions = [''.ts'', ''.sass'', ''.scss'', ''.less'']"

definition excludedFiles :: "string list" where
  "excludedFiles = [''.DS_Store'']"

record IProjectFileInfo =
  filePath :: string
  onDeviceFileName :: string

record FilePayload =
  event :: string
  file' :: string
  binary :: bool
  fileContents :: string

record FilesPayload =
  files :: "FilePayload list"
  platform' :: string

record IPlatformData =
  appDestinationDirectoryPath :: string
  normalizedPlatformName :: string

record IProjectData =
  projectDir :: string

text \<open>
  What the service calls and the sources do not hold: Node's \<^verbatim>\<open>path\<close> module, the
  \<^verbatim>\<open>istextorbinary\<close> package, the file system, the project files provider and the base64
  encoding of a buffer.
\<close>

record services =
  path_join :: "string \<Rightarrow> string \<Rightarrow> string"
  path_relative :: "string \<Rightarrow> string \<Rightarrow> string"
  path_dirname :: "string \<Rightarrow> string"
  path_basename :: "string \<Rightarrow> string"
  path_extname :: "string \<Rightarrow> string"
  isBinarySync :: "string \<Rightarrow> bool"
  readFile :: "string \<Rightarrow> string"
  readText :: "string \<Rightarrow> string"
  toBase64 :: "string \<Rightarrow> string"
  getProjectFileInfo :: "string \<Rightarrow> string \<Rightarrow> IProjectFileInfo"

text \<open>\<^verbatim>\<open>s.indexOf(sub)\<close>: the first position of \<open>sub\<close> in \<open>s\<close>, or \<open>-1\<close>.\<close>

fun indexOf :: "string \<Rightarrow> string \<Rightarrow> int" where
  "indexOf [] sub = (if sub = [] then 0 else - 1)"
| "indexOf (c # cs) sub =
     (if take (length sub) (c # cs) = sub then 0
      else (let i = indexOf cs sub in if i = - 1 then - 1 else i + 1))"

definition createFilePayload ::
  "constants \<Rightarrow> services \<Rightarrow> string \<Rightarrow> IPlatformData \<Rightarrow> IProjectData \<Rightarrow> string \<Rightarrow> FilePayload" where
  "createFilePayload k sv f platformData projectData ev =
     (let projectFileInfo = getProjectFileInfo sv f (normalizedPlatformName platformData);
          isBinary = isBinarySync sv f;
          (contents, filePath') =
            (if ev = CHANGE_EVENT_NAME then
               (let relativePath =
                      path_relative sv
                        (path_join sv (appDestinationDirectoryPath platformData) (APP_FOLDER_NAME k))
                        f;
                    onDevicePath =
                      path_join sv (path_dirname sv relativePath) (onDeviceFileName projectFileInfo)
                in if isBinary then (toBase64 sv (readFile sv f), onDevicePath)
                   else (readText sv
                           (path_join sv (path_dirname sv (filePath projectFileInfo))
                              (onDeviceFileName projectFileInfo)),
                         onDevicePath))
             else if ev = UNLINK_EVENT_NAME then
               ([], path_relative sv (path_join sv (projectDir projectData) (APP_FOLDER_NAME k)) f)
             else ([], []))
      in \<lparr>event = ev, file' = filePath', binary = isBinary, fileContents = contents\<rparr>)"

text \<open>
  \<^verbatim>\<open>getFilesPayload\<close>. \<open>filesToRemove\<close> is the empty list when the caller passes none:
  \<^verbatim>\<open>_.map(undefined, f)\<close> is empty.
\<close>

definition getFilesPayload ::
  "constants \<Rightarrow> services \<Rightarrow> IPlatformData \<Rightarrow> IProjectData \<Rightarrow> string list \<Rightarrow> string list
     \<Rightarrow> FilesPayload" where
  "getFilesPayload k sv platformData projectData filesToSync filesToRemove =
     (let filesToTransfer =
            filter (\<lambda>f. path_extname sv f \<notin> set excludedFileExtensions)
              (filter (\<lambda>f. path_basename sv f \<notin> set excludedFiles)
                 (filter (\<lambda>f. indexOf f (APP_RESOURCES_FOLDER_NAME k) = - 1)
                    (filter (\<lambda>f. indexOf f (TNS_MODULES_FOLDER_NAME k) = - 1) filesToSync)));
          payloadsToSync =
            map (\<lambda>f. createFilePayload k sv f platformData projectData CHANGE_EVENT_NAME)
              filesToTransfer;
          payloadsToRemove =
            map (\<lambda>f. createFilePayload k sv f platformData projectData UNLINK_EVENT_NAME)
              filesToRemove;
          payloads = payloadsToSync @ payloadsToRemove
      in \<lparr>files = payloads, platform' = toLowerCase (normalizedPlatformName platformData)\<rparr>)"

text \<open>
  The spec's wording of a file that is never shipped, for comparison with the filters of
  the code: the file lies under the dependency directory or under the native resource
  directory, or it is one of the excluded files, or its extension is in the excluded set.
  A path lies under a directory when the directory's name occurs in it.
\<close>

fun occursIn :: "string \<Rightarrow> string \<Rightarrow> bool" where
  "occursIn sub [] = (sub = [])"
| "occursIn sub (c # cs) = (take (length sub) (c # cs) = sub \<or> occursIn sub cs)"

definition excluded :: "constants \<Rightarrow> services \<Rightarrow> string \<Rightarrow> bool" where
  "excluded k sv f =
     (occursIn (TNS_MODULES_FOLDER_NAME k) f \<or> occursIn (APP_RESOURCES_FOLDER_NAME k) f \<or>
      path_basename sv f \<in> set excludedFiles \<or> path_extname sv f \<in> set excludedFileExtensions)"

text \<open>
  Sample surroundings, used to instantiate the theorems below: the folder names of a
  project, and stand-ins for the path functions that are right on the sample paths (paths
  with \<open>/\<close> and no trailing \<open>/\<close>; \<^verbatim>\<open>path.relative\<close> for a file under the directory).
\<close>

definition sampleConstants :: constants where
  "sampleConstants =
     \<lparr>APP_FOLDER_NAME = ''app'', APP_RESOURCES_FOLDER_NAME = ''App_Resources'',
      TNS_MODULES_FOLDER_NAME = ''tns_modules''\<rparr>"

definition sample_basename :: "string \<Rightarrow> string" where
  "sample_basename p = rev (takeWhile (\<lambda>c. c \<noteq> CHR ''/'') (rev p))"

definition sample_dirname :: "string \<Rightarrow> string" where
  "sample_dirname p =
     (let d = rev (drop 1 (dropWhile (\<lambda>c. c \<noteq> CHR ''/'') (rev p))) in if d = [] then ''.'' else d)"

definition sample_extname :: "string \<Rightarrow> string" where
  "sample_extname p =
     (let b = sample_basename p; e = rev (takeWhile (\<lambda>c. c \<noteq> CHR ''.'') (rev b))
      in if length e + 1 < length b then CHR ''.'' # e else [])"

definition sample_join :: "string \<Rightarrow> string \<Rightarrow> string" where
  "sample_join a b = (if a = ''.'' then b else a @ ''/'' @ b)"

definition sample_relative :: "string \<Rightarrow> string \<Rightarrow> string" where
  "sample_relative from to = drop (length from + 1) to"

definition sample_info :: "string \<Rightarrow> string \<Rightarrow> IProjectFileInfo" where
  "sample_info f platformName = \<lparr>filePath = f, onDeviceFileName = sample_basename f\<rparr>"

definition sample_false :: "string \<Rightarrow> bool" where
  "sample_false f = False"

definition sampleServices :: services where
  "sampleServices =
     \<lparr>path_join = sample_join, path_relative = sample_relative, path_dirname = sample_dirname,
      path_basename = sample_basename, path_extname = sample_extname,
      isBinarySync = sample_false, readFile = id, readText = id, toBase64 = id,
      getProjectFileInfo = sample_info\<rparr>"

subsection \<open>Initialization per device\<close>

text \<open>
  \<^verbatim>\<open>initialize\<close> hands a callback to the preview SDK, which calls it for every device that
  connects. Promises are known by number: promise \<open>p\<close> is the one returned by the
  \<open>p\<close>-th call of \<^verbatim>\<open>initializePreviewForDevice\<close>, and \<open>initializations\<close> lists the device
  identifiers these calls were made for. \<open>deviceInitializationPromise\<close> maps a device
  identifier to a promise or to \<^verbatim>\<open>null\<close>. \<open>outcomes\<close> holds what the settled promises were
  fulfilled or rejected with.
\<close>

record Device =
  id' :: string
  devicePlatform' :: string

record initialization_state =
  deviceInitializationPromise :: "string \<rightharpoonup> nat option"
  initializations :: "string list"
  outcomes :: "nat \<rightharpoonup> error + FilesPayload"

text \<open>
  What the callback returns to the preview SDK: a promise of
  \<^verbatim>\<open>initializePreviewForDevice\<close>, or the value that the dictionary inherits under the name
  it was read with.
\<close>

datatype callback_result =
    InitializationPromise nat
  | InheritedValue string

text \<open>
  The statement
  \<^verbatim>\<open>this.deviceInitializationPromise[device.id] = this.initializePreviewForDevice(data, device)\<close>
  of the callback: \<^verbatim>\<open>initializePreviewForDevice\<close> is called and its promise becomes the entry
  of the device.
\<close>

definition startInitialization ::
  "Device \<Rightarrow> initialization_state \<Rightarrow> (error + callback_result) \<times> initialization_state" where
  "startInitialization d s =
     (let p = length (initializations s)
      in (Inr (InitializationPromise p),
          s\<lparr>deviceInitializationPromise := (deviceInitializationPromise s)(id' d \<mapsto> Some p),
            initializations := initializations s @ [id' d]\<rparr>))"

text \<open>
  The callback, up to its \<^verbatim>\<open>await\<close>. The dictionary is created by \<^verbatim>\<open>{}\<close>, so
  \<^verbatim>\<open>this.deviceInitializationPromise[device.id]\<close> is truthy when the entry of the device
  holds a promise, and also when the device has no entry and its identifier is one of the
  inherited names: then the callback returns the inherited value. In every other case
  (no entry, or \<^verbatim>\<open>null\<close>) it calls \<^verbatim>\<open>initializePreviewForDevice\<close>, stores the promise and
  awaits it. Without a device, \<^verbatim>\<open>failWithoutHelp\<close> throws.
\<close>

definition deviceConnected ::
  "Device option \<Rightarrow> initialization_state \<Rightarrow> (error + callback_result) \<times> initialization_state"
  where
  "deviceConnected device s =
     (case device of
        None \<Rightarrow>
          (Inl (failWithoutHelp
             ''Sending initial preview files without a specified device is not supported.''), s)
      | Some d \<Rightarrow>
          (case deviceInitializationPromise s (id' d) of
             Some (Some p) \<Rightarrow> (Inr (InitializationPromise p), s)
           | Some None \<Rightarrow> startInitialization d s
           | None \<Rightarrow>
               (if id' d \<in> set inheritedNames
                then (Inr (InheritedValue (id' d)), s)
                else startInitialization d s)))"

text \<open>
  The rest of the callback, which runs when the awaited promise \<open>p\<close> is fulfilled
  (\<open>Inr\<close>) or rejected (\<open>Inl\<close>): in both cases the \<^verbatim>\<open>finally\<close> block sets the entry of
  the device to \<^verbatim>\<open>null\<close>. A promise is settled once, while it is the entry of its device.
\<close>

definition initializationSettled ::
  "nat \<Rightarrow> error + FilesPayload \<Rightarrow> initialization_state \<Rightarrow> initialization_state" where
  "initializationSettled p outcome s =
     (if p < length (initializations s) \<and>
         deviceInitializationPromise s (initializations s ! p) = Some (Some p)
      then s\<lparr>deviceInitializationPromise :=
               (deviceInitializationPromise s)(initializations s ! p \<mapsto> None),
             outcomes := (outcomes s)(p \<mapsto> outcome)\<rparr>
      else s)"

datatype initialization_event =
    DeviceConnected "Device option"
  | InitializationSettled nat "error + FilesPayload"

fun settles :: "nat \<Rightarrow> initialization_event \<Rightarrow> bool" where
  "settles p (DeviceConnected device) = False"
| "settles p (InitializationSettled q outcome) = (q = p)"

fun initialization_step :: "initialization_event \<Rightarrow> initialization_state \<Rightarrow> initialization_state" where
  "initialization_step (DeviceConnected device) s = snd (deviceConnected device s)"
| "initialization_step (InitializationSettled p outcome) s = initializationSettled p outcome s"

fun initialization_run :: "initialization_event list \<Rightarrow> initialization_state \<Rightarrow> initialization_state" where
  "initialization_run [] s = s"
| "initialization_run (e # es) s = initialization_run es (initialization_step e s)"

subsection \<open>Sync cycles started by the hook\<close>

text \<open>
  \<^verbatim>\<open>initializePreviewForDevice\<close> hands \<^verbatim>\<open>filesToSyncMap\<close> and \<^verbatim>\<open>startSyncFilesTimeout\<close> to the
  \<^verbatim>\<open>preview-sync\<close> hook. A sync cycle is one call of \<^verbatim>\<open>syncFilesForPlatformSafe\<close> made by
  \<^verbatim>\<open>startSyncFilesTimeout\<close>; cycles are known by number, in the order of their start. A
  cycle reads the files it is given when it starts, and it is running until its promise
  is fulfilled (\<^verbatim>\<open>syncFilesForPlatformSafe\<close> catches every error, so its promise is never
  rejected). The variable \<^verbatim>\<open>promise\<close> is \<open>None\<close> for the initial \<^verbatim>\<open>Promise.resolve(null)\<close>
  and the latest cycle otherwise.

  \<^verbatim>\<open>promise.then(callback)\<close> never runs the callback inside the call. On a running cycle
  the callback is registered: \<open>waiting\<close> lists these callbacks, oldest first, as the cycle
  and the platform of the call. On a promise that is fulfilled already the callback
  becomes a microtask, which runs when the code that made the call has run to its end:
  \<open>queued\<close> lists these callbacks, oldest first, by the platform of the call.
\<close>

record cycle =
  cyclePlatform :: string
  cycleFiles :: "string list"
  running :: bool

record sync_state =
  filesToSyncMap :: "string \<rightharpoonup> string list"
  promise :: "nat option"
  cycles :: "cycle list"
  waiting :: "(nat \<times> string) list"
  queued :: "string list"

text \<open>
  The callback given to \<^verbatim>\<open>promise.then\<close>: it starts a cycle with
  \<^verbatim>\<open>filesToSyncMap[platform]\<close> as it is at that moment (no files when the entry is
  \<^verbatim>\<open>undefined\<close>), and assigns the cycle to \<^verbatim>\<open>promise\<close>.
\<close>

definition startCycle :: "string \<Rightarrow> sync_state \<Rightarrow> sync_state" where
  "startCycle platformName s =
     s\<lparr>cycles := cycles s @
          [\<lparr>cyclePlatform = platformName,
            cycleFiles = (case filesToSyncMap s platformName of Some fs \<Rightarrow> fs | None \<Rightarrow> []),
            running = True\<rparr>],
       promise := Some (length (cycles s))\<rparr>"

text \<open>
  A call of \<^verbatim>\<open>startSyncFilesTimeout(platform)\<close>, up to its \<^verbatim>\<open>await\<close>: the callback is given
  to \<^verbatim>\<open>then\<close> of the promise that the variable \<^verbatim>\<open>promise\<close> holds at the time of the call.
\<close>

definition startSyncFilesTimeout :: "string \<Rightarrow> sync_state \<Rightarrow> sync_state" where
  "startSyncFilesTimeout platformName s =
     (case promise s of
        None \<Rightarrow> s\<lparr>queued := queued s @ [platformName]\<rparr>
      | Some c \<Rightarrow>
          (if c < length (cycles s) \<and> running (cycles s ! c)
           then s\<lparr>waiting := waiting s @ [(c, platformName)]\<rparr>
           else s\<lparr>queued := queued s @ [platformName]\<rparr>))"

text \<open>
  The microtasks run, in the order in which they were queued: every callback given to a
  fulfilled promise starts its cycle.
\<close>

definition runMicrotasks :: "sync_state \<Rightarrow> sync_state" where
  "runMicrotasks s = (fold startCycle (queued s) s)\<lparr>queued := []\<rparr>"

text \<open>
  The promise of cycle \<open>c\<close> is fulfilled. The callbacks registered on it run in the order
  of their registration, each starting a cycle; after them the call of
  \<^verbatim>\<open>startSyncFilesTimeout\<close> that started \<open>c\<close> resumes and sets
  \<^verbatim>\<open>filesToSyncMap[platform]\<close> to the empty array.
\<close>

definition cycleCompleted :: "nat \<Rightarrow> sync_state \<Rightarrow> sync_state" where
  "cycleCompleted c s =
     (if c < length (cycles s) \<and> running (cycles s ! c) then
        (let s1 = s\<lparr>cycles := (cycles s)[c := (cycles s ! c)\<lparr>running := False\<rparr>],
                   waiting := filter (\<lambda>(c', p). c' \<noteq> c) (waiting s)\<rparr>;
             s2 = fold startCycle (map snd (filter (\<lambda>(c', p). c' = c) (waiting s))) s1
         in s2\<lparr>filesToSyncMap := (filesToSyncMap s2)(cyclePlatform (cycles s ! c) \<mapsto> [])\<rparr>)
      else s)"

text \<open>
  What the hook can do while it runs: write \<^verbatim>\<open>filesToSyncMap[platform]\<close>, and call
  \<^verbatim>\<open>startSyncFilesTimeout(platform)\<close>.
\<close>

datatype hook_action =
    FilesChanged string "string list"
  | SyncRequest string

fun hook_step :: "hook_action \<Rightarrow> sync_state \<Rightarrow> sync_state" where
  "hook_step (FilesChanged platformName fs) s =
     s\<lparr>filesToSyncMap := (filesToSyncMap s)(platformName \<mapsto> fs)\<rparr>"
| "hook_step (SyncRequest platformName) s = startSyncFilesTimeout platformName s"

text \<open>
  What can happen: the hook runs for a while, without suspension, and then the microtasks
  run; or a cycle completes.
\<close>

datatype sync_event =
    HookTurn "hook_action list"
  | CycleCompleted nat

fun sync_step :: "sync_event \<Rightarrow> sync_state \<Rightarrow> sync_state" where
  "sync_step (HookTurn actions) s = runMicrotasks (fold hook_step actions s)"
| "sync_step (CycleCompleted c) s = cycleCompleted c s"

fun sync_run :: "sync_event list \<Rightarrow> sync_state \<Rightarrow> sync_state" where
  "sync_run [] s = s"
| "sync_run (e # es) s = sync_run es (sync_step e s)"

text \<open>The state when \<^verbatim>\<open>initializePreviewForDevice\<close> has set up its two variables.\<close>

definition initialSync :: sync_state where
  "initialSync =
     \<lparr>filesToSyncMap = Map.empty, promise = None, cycles = [], waiting = [], queued = []\<rparr>"




text \<open>The dictionary of the service as the constructor leaves it.\<close>

definition newInitializations :: initialization_state where
  "newInitializations =
     \<lparr>deviceInitializationPromise = Map.empty, initializations = [], outcomes = Map.empty\<rparr>"

section \<open>Properties of the device transfer\<close>

lemma getChangedLocalToDevicePaths_eq:
  "getChangedLocalToDevicePaths d l2d cur =
     filter (\<lambda>f. fingerprint_changed (case hashFile d of Some s \<Rightarrow> s | None \<Rightarrow> []) cur
                  (getLocalPath f)) l2d"
  unfolding getChangedLocalToDevicePaths_def getChangedShasums_def keys_def
    getShasumsFromDevice_def Let_def fingerprint_changed_def
  by (rule filter_cong) (force simp: list_ex_iff image_iff)+

lemma getChangedLocalToDevicePaths_no_table:
  "hashFile d = None \<Longrightarrow>
   getChangedLocalToDevicePaths d l2d cur = filter (\<lambda>f. getLocalPath f \<in> fst ` set cur) l2d"
  by (simp add: getChangedLocalToDevicePaths_def getChangedShasums_def keys_def
      getShasumsFromDevice_def Let_def)

text \<open>
  Claim C1, as stated, fails. With \<^verbatim>\<open>isFullSync = false\<close> (an incremental sync) and
  \<^verbatim>\<open>force = false\<close>, \<^verbatim>\<open>getLocalToDevicePathsToTransfer\<close> returns the paths it was given
  without looking at the stored table: the file below is pushed although its current
  fingerprint \<open>h1\<close> is the stored one, and the diff against the stored table is empty.
\<close>

theorem incremental_sync_pushes_unchanged_file:
  "transferFilesCore \<lparr>failing = [], hashFileDevicePath = ''.nshashes''\<rparr>
      [file_a] ''app'' [(''app/a.js'', ''h1'')] \<lparr>force = False, isFullSync = False\<rparr>
      \<lparr>hashFile = Some [(''app/a.js'', ''h1'')], calls = []\<rparr>
   = (Inr [file_a],
      \<lparr>hashFile = Some [(''app/a.js'', ''h1'')], calls = [TransferFilesOnDevice [file_a]]\<rparr>)
   \<and> getChangedLocalToDevicePaths \<lparr>hashFile = Some [(''app/a.js'', ''h1'')], calls = []\<rparr>
        [file_a] [(''app/a.js'', ''h1'')] = []"
  by (simp add: transferFilesCore_def getLocalToDevicePathsToTransfer_def transferFilesOnDevice_def
      succeeds_def Let_def getChangedLocalToDevicePaths_def getChangedShasums_def keys_def
      getShasumsFromDevice_def)

text \<open>
  Claim C1, amended. For every sync with \<^verbatim>\<open>force = false\<close>, one push is attempted. With
  \<^verbatim>\<open>isFullSync = true\<close> it carries the changed set: a file is pushed if and only if it
  has a current fingerprint that is absent from, or differs from, the device's stored
  fingerprint table. With \<^verbatim>\<open>isFullSync = false\<close> no diff is made and every file handed
  to the transfer is pushed.
\<close>

theorem sync_without_force_pushes:
  assumes "\<not> force options"
  shows "transferFilesCore t l2d pfp cur options d =
     (let pushed =
        (if isFullSync options
         then filter (\<lambda>f. fingerprint_changed (case hashFile d of Some s \<Rightarrow> s | None \<Rightarrow> []) cur
                        (getLocalPath f)) l2d
         else l2d)
      in if TransferFilesOnDevice pushed \<in> set (failing t)
         then (Inl (TransportError (TransferFilesOnDevice pushed)), d)
         else (Inr pushed, d\<lparr>calls := calls d @ [TransferFilesOnDevice pushed]\<rparr>))"
  using assms
  by (simp add: transferFilesCore_def transferFilesOnDevice_def succeeds_def Let_def
      getLocalToDevicePathsToTransfer_def getChangedLocalToDevicePaths_eq)

text \<open>
  Witness for C1 (amended): a full sync without force of two files, of which only
  \<^verbatim>\<open>app/b.js\<close> has a fingerprint that differs from the stored one, pushes \<^verbatim>\<open>app/b.js\<close>
  alone.
\<close>

theorem sync_without_force_pushes_witness:
  "\<not> force \<lparr>force = False, isFullSync = True\<rparr> \<and>
   transferFilesCore \<lparr>failing = [], hashFileDevicePath = ''.nshashes''\<rparr> [file_a, file_b] ''app''
          [(''app/a.js'', ''h1''), (''app/b.js'', ''h3'')] \<lparr>force = False, isFullSync = True\<rparr>
          \<lparr>hashFile = Some [(''app/a.js'', ''h1''), (''app/b.js'', ''h2'')], calls = []\<rparr>
    = (Inr [file_b], \<lparr>hashFile = Some [(''app/a.js'', ''h1''), (''app/b.js'', ''h2'')],
                      calls = [TransferFilesOnDevice [file_b]]\<rparr>)"
proof -
  have h: "\<not> force \<lparr>force = False, isFullSync = True\<rparr>" by simp
  show ?thesis
    using sync_without_force_pushes [OF h,
      of "\<lparr>failing = [], hashFileDevicePath = ''.nshashes''\<rparr>" "[file_a, file_b]" "''app''"
      "[(''app/a.js'', ''h1''), (''app/b.js'', ''h3'')]"
      "\<lparr>hashFile = Some [(''app/a.js'', ''h1''), (''app/b.js'', ''h2'')], calls = []\<rparr>"]
    by (simp add: fingerprint_changed_def Let_def)
qed

text \<open>
  Claim C4, as stated, fails. With \<^verbatim>\<open>force\<close> and \<^verbatim>\<open>isFullSync\<close> both set, the hash file is
  deleted before the push; when the push then fails, the stored fingerprint table is gone,
  not left unchanged.
\<close>

theorem failed_forced_full_sync_loses_table:
  "fst (transferFiles
      \<lparr>failing = [TransferDirectoryOnDevice [file_a] ''app''], hashFileDevicePath = ''.nshashes''\<rparr>
      [(''app/a.js'', ''h2'')] [file_a] ''app'' \<lparr>force = True, isFullSync = True\<rparr>
      \<lparr>hashFile = Some [(''app/a.js'', ''h1'')], calls = []\<rparr>)
   = Inl (TransportError (TransferDirectoryOnDevice [file_a] ''app''))
  \<and> hashFile (snd (transferFiles
      \<lparr>failing = [TransferDirectoryOnDevice [file_a] ''app''], hashFileDevicePath = ''.nshashes''\<rparr>
      [(''app/a.js'', ''h2'')] [file_a] ''app'' \<lparr>force = True, isFullSync = True\<rparr>
      \<lparr>hashFile = Some [(''app/a.js'', ''h1'')], calls = []\<rparr>))
   \<noteq> hashFile \<lparr>hashFile = Some [(''app/a.js'', ''h1'')], calls = []\<rparr>"
  by (simp add: transferFiles_def transferFilesCore_def deleteFile_def
      transferDirectoryOnDevice_def succeeds_def Let_def)

text \<open>
  Claim C4, amended. If the transport-level push fails during a transfer, the error is
  passed on and no fingerprint commit occurs: \<^verbatim>\<open>updateHashesOnDevice\<close> is not called, and
  the device's stored fingerprint table is left unchanged, except in a sync with \<^verbatim>\<open>force\<close>
  and \<^verbatim>\<open>isFullSync\<close> both set, where the table has been cleared before the push. So the
  next sync cycle re-evaluates the failed files and retries them: the same request, made
  again over a transport that works, pushes exactly what the failed push carried, and
  only then commits the fingerprints.
\<close>

theorem failed_push_commits_nothing:
  assumes attempted:
      "force options \<and> isFullSync options \<longrightarrow> succeeds t (DeleteFile (hashFileDevicePath t))"
    and fails:
      "\<not> succeeds t (if force options \<and> isFullSync options
                      then TransferDirectoryOnDevice l2d pfp
                      else TransferFilesOnDevice (getLocalToDevicePathsToTransfer d l2d cur options))"
    and works: "failing t2 = []"
    and same: "hashFileDevicePath t2 = hashFileDevicePath t"
  shows "transferFiles t cur l2d pfp options d =
      (Inl (TransportError (if force options \<and> isFullSync options
                            then TransferDirectoryOnDevice l2d pfp
                            else TransferFilesOnDevice (getLocalToDevicePathsToTransfer d l2d cur options))),
       if force options \<and> isFullSync options
       then d\<lparr>hashFile := None, calls := calls d @ [DeleteFile (hashFileDevicePath t)]\<rparr>
       else d)
    \<and> transferFiles t2 cur l2d pfp options (snd (transferFiles t cur l2d pfp options d)) =
      (Inr (if force options \<and> isFullSync options then l2d
            else getLocalToDevicePathsToTransfer d l2d cur options),
       (snd (transferFiles t cur l2d pfp options d))
         \<lparr>hashFile := Some cur,
          calls := calls (snd (transferFiles t cur l2d pfp options d))
            @ (if force options \<and> isFullSync options
               then [DeleteFile (hashFileDevicePath t), TransferDirectoryOnDevice l2d pfp]
               else [TransferFilesOnDevice (getLocalToDevicePathsToTransfer d l2d cur options)])
            @ [UpdateHashesOnDevice cur]\<rparr>)"
proof (cases "force options \<and> isFullSync options")
  case True
  with attempted fails have first: "transferFiles t cur l2d pfp options d =
      (Inl (TransportError (TransferDirectoryOnDevice l2d pfp)),
       d\<lparr>hashFile := None, calls := calls d @ [DeleteFile (hashFileDevicePath t)]\<rparr>)"
    by (simp add: transferFiles_def transferFilesCore_def deleteFile_def
        transferDirectoryOnDevice_def Let_def)
  have again: "transferFiles t2 cur l2d pfp options d' =
      (Inr l2d, d'\<lparr>hashFile := Some cur,
         calls := calls d' @ [DeleteFile (hashFileDevicePath t), TransferDirectoryOnDevice l2d pfp]
                   @ [UpdateHashesOnDevice cur]\<rparr>)" for d'
    using True works same
    by (simp add: transferFiles_def transferFilesCore_def deleteFile_def
        transferDirectoryOnDevice_def updateHashesOnDevice_def succeeds_def Let_def)
  show ?thesis
    unfolding first using True again by simp
next
  case False
  with fails have first: "transferFiles t cur l2d pfp options d =
      (Inl (TransportError
         (TransferFilesOnDevice (getLocalToDevicePathsToTransfer d l2d cur options))), d)"
    by (cases "force options"; cases "isFullSync options";
        simp add: transferFiles_def transferFilesCore_def transferFilesOnDevice_def Let_def)
  have again: "transferFiles t2 cur l2d pfp options d =
      (Inr (getLocalToDevicePathsToTransfer d l2d cur options),
       d\<lparr>hashFile := Some cur,
         calls := calls d @ [TransferFilesOnDevice (getLocalToDevicePathsToTransfer d l2d cur options)]
                   @ [UpdateHashesOnDevice cur]\<rparr>)"
    using False works
    by (cases "force options"; cases "isFullSync options";
        simp add: transferFiles_def transferFilesCore_def transferFilesOnDevice_def
          updateHashesOnDevice_def succeeds_def Let_def)
  show ?thesis
    unfolding first using False again by auto
qed

text \<open>
  Witness for C4 (amended): a full sync without force finds \<^verbatim>\<open>app/b.js\<close> changed, and its
  push fails; the device is left as it was. The same sync over a transport that works
  pushes \<^verbatim>\<open>app/b.js\<close> and commits the current fingerprints.
\<close>

theorem failed_push_commits_nothing_witness:
  "transferFiles \<lparr>failing = [TransferFilesOnDevice [file_b]], hashFileDevicePath = ''.nshashes''\<rparr>
      [(''app/a.js'', ''h1''), (''app/b.js'', ''h3'')] [file_a, file_b] ''app''
      \<lparr>force = False, isFullSync = True\<rparr>
      \<lparr>hashFile = Some [(''app/a.js'', ''h1''), (''app/b.js'', ''h2'')], calls = []\<rparr>
   = (Inl (TransportError (TransferFilesOnDevice [file_b])),
      \<lparr>hashFile = Some [(''app/a.js'', ''h1''), (''app/b.js'', ''h2'')], calls = []\<rparr>)
   \<and> transferFiles \<lparr>failing = [], hashFileDevicePath = ''.nshashes''\<rparr>
      [(''app/a.js'', ''h1''), (''app/b.js'', ''h3'')] [file_a, file_b] ''app''
      \<lparr>force = False, isFullSync = True\<rparr>
      \<lparr>hashFile = Some [(''app/a.js'', ''h1''), (''app/b.js'', ''h2'')], calls = []\<rparr>
   = (Inr [file_b],
      \<lparr>hashFile = Some [(''app/a.js'', ''h1''), (''app/b.js'', ''h3'')],
       calls = [TransferFilesOnDevice [file_b],
                UpdateHashesOnDevice [(''app/a.js'', ''h1''), (''app/b.js'', ''h3'')]]\<rparr>)"
proof -
  let ?t = "\<lparr>failing = [TransferFilesOnDevice [file_b]], hashFileDevicePath = ''.nshashes''\<rparr>"
  let ?t2 = "\<lparr>failing = [], hashFileDevicePath = ''.nshashes''\<rparr>"
  let ?o = "\<lparr>force = False, isFullSync = True\<rparr>"
  let ?cur = "[(''app/a.js'', ''h1''), (''app/b.js'', ''h3'')]"
  let ?d = "\<lparr>hashFile = Some [(''app/a.js'', ''h1''), (''app/b.js'', ''h2'')], calls = []\<rparr>"
  have changed: "getLocalToDevicePathsToTransfer ?d [file_a, file_b] ?cur ?o = [file_b]"
    by (simp add: getLocalToDevicePathsToTransfer_def getChangedLocalToDevicePaths_def
        getChangedShasums_def keys_def getShasumsFromDevice_def Let_def)
  have a: "force ?o \<and> isFullSync ?o \<longrightarrow> succeeds ?t (DeleteFile (hashFileDevicePath ?t))"
    by simp
  have f: "\<not> succeeds ?t (if force ?o \<and> isFullSync ?o
                      then TransferDirectoryOnDevice [file_a, file_b] ''app''
                      else TransferFilesOnDevice
                        (getLocalToDevicePathsToTransfer ?d [file_a, file_b] ?cur ?o))"
    unfolding changed by (simp add: succeeds_def)
  have w: "failing ?t2 = []" by simp
  have s: "hashFileDevicePath ?t2 = hashFileDevicePath ?t" by simp
  note t = failed_push_commits_nothing [OF a f w s]
  have first: "transferFiles ?t ?cur [file_a, file_b] ''app'' ?o ?d
      = (Inl (TransportError (TransferFilesOnDevice [file_b])), ?d)"
    using t [THEN conjunct1] unfolding changed by simp
  have again: "transferFiles ?t2 ?cur [file_a, file_b] ''app'' ?o ?d
      = (Inr [file_b], \<lparr>hashFile = Some ?cur,
           calls = [TransferFilesOnDevice [file_b], UpdateHashesOnDevice ?cur]\<rparr>)"
    using t [THEN conjunct2] unfolding first changed by simp
  show ?thesis
    by (intro conjI) (rule first, rule again)
qed

text \<open>
  Claim C5. For every sync with \<^verbatim>\<open>isFullSync = true\<close> and \<^verbatim>\<open>force = true\<close>, whatever the
  device's stored table and whatever the current hashes: the first transport call deletes
  the hash file, which clears the stored fingerprint record; the second hands the entire
  list of files to \<^verbatim>\<open>transferDirectoryOnDevice\<close>, undiffed, and that list is the result.
  A call that fails ends the transfer with its error.
\<close>

theorem forced_full_sync_clears_then_transfers_all:
  assumes "force options" "isFullSync options"
  shows "transferFilesCore t l2d pfp cur options d =
     (if \<not> succeeds t (DeleteFile (hashFileDevicePath t))
      then (Inl (TransportError (DeleteFile (hashFileDevicePath t))), d)
      else if \<not> succeeds t (TransferDirectoryOnDevice l2d pfp)
      then (Inl (TransportError (TransferDirectoryOnDevice l2d pfp)),
            d\<lparr>hashFile := None, calls := calls d @ [DeleteFile (hashFileDevicePath t)]\<rparr>)
      else (Inr l2d, d\<lparr>hashFile := None,
              calls := calls d @ [DeleteFile (hashFileDevicePath t), TransferDirectoryOnDevice l2d pfp]\<rparr>))"
  using assms
  by (simp add: transferFilesCore_def deleteFile_def transferDirectoryOnDevice_def Let_def)

text \<open>
  Witness for C5: a forced full sync of two files to a device whose stored table already
  holds the current fingerprints deletes the hash file and transfers both files.
\<close>

theorem forced_full_sync_clears_then_transfers_all_witness:
  "transferFilesCore \<lparr>failing = [], hashFileDevicePath = ''.nshashes''\<rparr> [file_a, file_b] ''app''
      [(''app/a.js'', ''h1''), (''app/b.js'', ''h2'')] \<lparr>force = True, isFullSync = True\<rparr>
      \<lparr>hashFile = Some [(''app/a.js'', ''h1''), (''app/b.js'', ''h2'')], calls = []\<rparr>
   = (Inr [file_a, file_b],
      \<lparr>hashFile = None,
       calls = [DeleteFile ''.nshashes'', TransferDirectoryOnDevice [file_a, file_b] ''app'']\<rparr>)"
proof -
  have f: "force \<lparr>force = True, isFullSync = True\<rparr>" by simp
  have s: "isFullSync \<lparr>force = True, isFullSync = True\<rparr>" by simp
  show ?thesis
    using forced_full_sync_clears_then_transfers_all [OF f s,
      of "\<lparr>failing = [], hashFileDevicePath = ''.nshashes''\<rparr>" "[file_a, file_b]" "''app''"
         "[(''app/a.js'', ''h1''), (''app/b.js'', ''h2'')]"
         "\<lparr>hashFile = Some [(''app/a.js'', ''h1''), (''app/b.js'', ''h2'')], calls = []\<rparr>"]
    by (simp add: succeeds_def)
qed

section \<open>Properties of the log parser\<close>

text \<open>
  The evaluations that a log chunk calls for: for every line, in order, every rule whose
  guard holds, in the order of \<^verbatim>\<open>_.forEach\<close>.
\<close>

lemma forEachRule_evaluated:
  "forEachRule rules line dev plat (s, ev) = (res, s', ev') \<Longrightarrow>
   \<exists>after. ev @ map (\<lambda>(k, r). (name r, line)) (filter (\<lambda>(k, r). platformApplies plat r) rules)
              = ev' @ after \<and>
     (res = Inr () \<longrightarrow> after = []) \<and>
     (\<forall>e. res = Inl e \<longrightarrow>
        (\<exists>k r m s0. (k, r) \<in> set rules \<and> platformApplies plat r \<and> ev' \<noteq> [] \<and>
            last ev' = (name r, line) \<and> regex r line = Some m \<and> handler r m dev s0 = (Inl e, s')))"
proof (induction rules arbitrary: s ev)
  case Nil
  then show ?case by auto
next
  case (Cons kr rules)
  obtain k r where kr: "kr = (k, r)" by (cases kr)
  show ?case
  proof (cases "platformApplies plat r")
    case False
    with Cons.prems kr have "forEachRule rules line dev plat (s, ev) = (res, s', ev')" by simp
    from Cons.IH [OF this] False kr show ?thesis by (auto; blast)
  next
    case True
    show ?thesis
    proof (cases "regex r line")
      case None
      with Cons.prems kr True
      have "forEachRule rules line dev plat (s, ev @ [(name r, line)]) = (res, s', ev')" by simp
      from Cons.IH [OF this] True kr show ?thesis by (auto; blast)
    next
      case (Some m)
      obtain hres s1 where h: "handler r m dev s = (hres, s1)" by (cases "handler r m dev s")
      show ?thesis
      proof (cases hres)
        case (Inl e)
        with Cons.prems kr True Some h
        have "res = Inl e" "s' = s1" "ev' = ev @ [(name r, line)]" by auto
        with kr True Some h Inl show ?thesis
          by (intro exI [of _ "map (\<lambda>(k, r). (name r, line))
                (filter (\<lambda>(k, r). platformApplies plat r) rules)"]) auto
      next
        case (Inr u)
        with Cons.prems kr True Some h
        have "forEachRule rules line dev plat (s1, ev @ [(name r, line)]) = (res, s', ev')" by simp
        from Cons.IH [OF this] True kr show ?thesis by (auto; blast)
      qed
    qed
  qed
qed

lemma forEachLine_evaluated:
  "forEachLine rules lines dev plat (s, ev) = (res, s', ev') \<Longrightarrow>
   \<exists>after. ev @ concat (map (\<lambda>line. map (\<lambda>(k, r). (name r, line))
                (filter (\<lambda>(k, r). platformApplies plat r) rules)) lines)
              = ev' @ after \<and>
     (res = Inr () \<longrightarrow> after = []) \<and>
     (\<forall>e. res = Inl e \<longrightarrow>
        (\<exists>k r line m s0. (k, r) \<in> set rules \<and> line \<in> set lines \<and> platformApplies plat r \<and>
            ev' \<noteq> [] \<and> last ev' = (name r, line) \<and> regex r line = Some m \<and>
            handler r m dev s0 = (Inl e, s')))"
proof (induction lines arbitrary: s ev)
  case Nil
  then show ?case by auto
next
  case (Cons line lines)
  obtain r1 s1 ev1 where one: "forEachRule rules line dev plat (s, ev) = (r1, s1, ev1)"
    by (cases "forEachRule rules line dev plat (s, ev)")
  from forEachRule_evaluated [OF one] obtain after1 where
    a1: "ev @ map (\<lambda>(k, r). (name r, line)) (filter (\<lambda>(k, r). platformApplies plat r) rules)
           = ev1 @ after1"
    and d1: "r1 = Inr () \<longrightarrow> after1 = []"
    and t1: "\<forall>e. r1 = Inl e \<longrightarrow>
        (\<exists>k r m s0. (k, r) \<in> set rules \<and> platformApplies plat r \<and> ev1 \<noteq> [] \<and>
            last ev1 = (name r, line) \<and> regex r line = Some m \<and> handler r m dev s0 = (Inl e, s1))"
    by blast
  show ?case
  proof (cases r1)
    case (Inl e)
    with Cons.prems one have eq: "res = Inl e" "s' = s1" "ev' = ev1" by auto
    from t1 Inl obtain k r m s0 where
      w: "(k, r) \<in> set rules" "platformApplies plat r" "ev1 \<noteq> []" "last ev1 = (name r, line)"
         "regex r line = Some m" "handler r m dev s0 = (Inl e, s1)"
      by blast
    let ?rest = "concat (map (\<lambda>line. map (\<lambda>(k, r). (name r, line))
                (filter (\<lambda>(k, r). platformApplies plat r) rules)) lines)"
    have "ev @ concat (map (\<lambda>line. map (\<lambda>(k, r). (name r, line))
                (filter (\<lambda>(k, r). platformApplies plat r) rules)) (line # lines))
          = ev' @ (after1 @ ?rest)"
      using a1 eq by simp
    moreover have "\<exists>k r l m s0. (k, r) \<in> set rules \<and> l \<in> set (line # lines) \<and>
            platformApplies plat r \<and> ev' \<noteq> [] \<and> last ev' = (name r, l) \<and> regex r l = Some m \<and>
            handler r m dev s0 = (Inl e, s')"
      using w eq by (intro exI [of _ k] exI [of _ r] exI [of _ line] exI [of _ m] exI [of _ s0]) simp
    ultimately show ?thesis using eq by blast
  next
    case (Inr u)
    with Cons.prems one have rest: "forEachLine rules lines dev plat (s1, ev1) = (res, s', ev')"
      by simp
    from d1 Inr have "after1 = []" by simp
    with a1 have a1': "ev1 = ev @ map (\<lambda>(k, r). (name r, line))
        (filter (\<lambda>(k, r). platformApplies plat r) rules)" by simp
    from Cons.IH [OF rest] obtain after where
      a: "ev1 @ concat (map (\<lambda>line. map (\<lambda>(k, r). (name r, line))
                (filter (\<lambda>(k, r). platformApplies plat r) rules)) lines) = ev' @ after"
      and d: "res = Inr () \<longrightarrow> after = []"
      and t: "\<forall>e. res = Inl e \<longrightarrow>
        (\<exists>k r line m s0. (k, r) \<in> set rules \<and> line \<in> set lines \<and> platformApplies plat r \<and>
            ev' \<noteq> [] \<and> last ev' = (name r, line) \<and> regex r line = Some m \<and>
            handler r m dev s0 = (Inl e, s'))"
      by blast
    have "ev @ concat (map (\<lambda>line. map (\<lambda>(k, r). (name r, line))
                (filter (\<lambda>(k, r). platformApplies plat r) rules)) (line # lines)) = ev' @ after"
      using a a1' by simp
    moreover have "\<forall>e. res = Inl e \<longrightarrow>
        (\<exists>k r l m s0. (k, r) \<in> set rules \<and> l \<in> set (line # lines) \<and> platformApplies plat r \<and>
            ev' \<noteq> [] \<and> last ev' = (name r, l) \<and> regex r l = Some m \<and>
            handler r m dev s0 = (Inl e, s'))"
    proof (intro allI impI)
      fix e assume "res = Inl e"
      with t obtain k r l m s0 where
        "(k, r) \<in> set rules" "l \<in> set lines" "platformApplies plat r" "ev' \<noteq> []"
        "last ev' = (name r, l)" "regex r l = Some m" "handler r m dev s0 = (Inl e, s')"
        by blast
      then show "\<exists>k r l m s0. (k, r) \<in> set rules \<and> l \<in> set (line # lines) \<and>
            platformApplies plat r \<and> ev' \<noteq> [] \<and> last ev' = (name r, l) \<and> regex r l = Some m \<and>
            handler r m dev s0 = (Inl e, s')"
        by (intro exI [of _ k] exI [of _ r] exI [of _ l] exI [of _ m] exI [of _ s0]) simp
    qed
    ultimately show ?thesis using d by blast
  qed
qed

text \<open>
  Claim C8, as stated, fails. \<^verbatim>\<open>processDeviceLogResponse\<close> has no \<^verbatim>\<open>try\<close>: the exception
  of a handler leaves both loops. Rule \<open>a\<close> throws on the line \<open>x\<close>; rule \<open>b\<close>, which has no
  platform filter, is never evaluated against that line.
\<close>

theorem rule_after_throwing_rule_not_evaluated:
  "processDeviceLogResponse
     \<lparr>parseRules =
        [(''a'', \<lparr>regex = anyLine, handler = throwError, name = ''a'', platform = None\<rparr>),
         (''b'', \<lparr>regex = anyLine, handler = recordMatch, name = ''b'', platform = None\<rparr>)],
      parsingStarted = True\<rparr>
     ''x'' ''dev-1'' (Some ''Android'') []
   = (Inl (Error ''handler failed''), [], [(''a'', ''x'')])"
  by (simp add: processDeviceLogResponse_def forEachOrder_def isArrayIndex_def platformApplies_def
      falsy_def anyLine_def throwError_def)

text \<open>
  The evaluations made are a prefix of the evaluations called for, and all of them when
  the ingestion returns normally.
\<close>

lemma evaluations_are_a_prefix:
  "\<exists>after.
     concat (map (\<lambda>line. map (\<lambda>(k, r). (name r, line))
        (filter (\<lambda>(k, r). platformApplies devicePlatform r) (forEachOrder (parseRules svc))))
        (split_lines message))
       = snd (snd (processDeviceLogResponse svc message deviceIdentifier devicePlatform s)) @ after
     \<and> (fst (processDeviceLogResponse svc message deviceIdentifier devicePlatform s) = Inr ()
          \<longrightarrow> after = [])
     \<and> (\<forall>e. fst (processDeviceLogResponse svc message deviceIdentifier devicePlatform s) = Inl e
          \<longrightarrow> (\<exists>k r line m s0.
                 (k, r) \<in> set (parseRules svc) \<and> line \<in> set (split_lines message) \<and>
                 platformApplies devicePlatform r \<and>
                 last (snd (snd (processDeviceLogResponse svc message deviceIdentifier
                                   devicePlatform s))) = (name r, line) \<and>
                 regex r line = Some m \<and> fst (handler r m deviceIdentifier s0) = Inl e))"
proof -
  obtain res s' ev' where
    p: "forEachLine (forEachOrder (parseRules svc)) (split_lines message) deviceIdentifier
          devicePlatform (s, []) = (res, s', ev')"
    by (cases "forEachLine (forEachOrder (parseRules svc)) (split_lines message) deviceIdentifier
          devicePlatform (s, [])")
  have mem: "set (forEachOrder (parseRules svc)) = set (parseRules svc)"
    by (auto simp: forEachOrder_def)
  from forEachLine_evaluated [OF p] obtain after where
    a: "concat (map (\<lambda>line. map (\<lambda>(k, r). (name r, line))
        (filter (\<lambda>(k, r). platformApplies devicePlatform r) (forEachOrder (parseRules svc))))
        (split_lines message)) = ev' @ after"
    and d: "res = Inr () \<longrightarrow> after = []"
    and t: "\<forall>e. res = Inl e \<longrightarrow>
        (\<exists>k r line m s0. (k, r) \<in> set (forEachOrder (parseRules svc)) \<and>
            line \<in> set (split_lines message) \<and> platformApplies devicePlatform r \<and>
            ev' \<noteq> [] \<and> last ev' = (name r, line) \<and> regex r line = Some m \<and>
            handler r m deviceIdentifier s0 = (Inl e, s'))"
    by auto
  have t': "\<forall>e. res = Inl e \<longrightarrow>
        (\<exists>k r line m s0. (k, r) \<in> set (parseRules svc) \<and>
            line \<in> set (split_lines message) \<and> platformApplies devicePlatform r \<and>
            last ev' = (name r, line) \<and> regex r line = Some m \<and>
            fst (handler r m deviceIdentifier s0) = Inl e)"
  proof (intro allI impI)
    fix e assume "res = Inl e"
    with t obtain k r line m s0 where
      "(k, r) \<in> set (forEachOrder (parseRules svc))" "line \<in> set (split_lines message)"
      "platformApplies devicePlatform r" "last ev' = (name r, line)" "regex r line = Some m"
      "handler r m deviceIdentifier s0 = (Inl e, s')"
      by blast
    then show "\<exists>k r line m s0. (k, r) \<in> set (parseRules svc) \<and>
            line \<in> set (split_lines message) \<and> platformApplies devicePlatform r \<and>
            last ev' = (name r, line) \<and> regex r line = Some m \<and>
            fst (handler r m deviceIdentifier s0) = Inl e"
      unfolding mem
      by (intro exI [of _ k] exI [of _ r] exI [of _ line] exI [of _ m] exI [of _ s0]) simp
  qed
  show ?thesis
    unfolding processDeviceLogResponse_def p
    using a d t' by (intro exI [of _ after]) simp
qed

text \<open>The loops over a list in two parts.\<close>

lemma forEachRule_append:
  "forEachRule (pre @ post) line dev plat (s, ev) =
     (case forEachRule pre line dev plat (s, ev) of
        (Inl e, st) \<Rightarrow> (Inl e, st)
      | (Inr u, st) \<Rightarrow> forEachRule post line dev plat st)"
proof (induction pre arbitrary: s ev)
  case Nil
  show ?case by simp
next
  case (Cons kr pre)
  obtain k r where kr: "kr = (k, r)" by (cases kr)
  show ?case
    unfolding kr using Cons.IH
    by (auto split: option.splits prod.splits sum.splits)
qed

lemma forEachLine_append:
  "forEachLine rules (before @ rest) dev plat (s, ev) =
     (case forEachLine rules before dev plat (s, ev) of
        (Inl e, st) \<Rightarrow> (Inl e, st)
      | (Inr u, st) \<Rightarrow> forEachLine rules rest dev plat st)"
proof (induction before arbitrary: s ev)
  case Nil
  show ?case by simp
next
  case (Cons line before)
  show ?case
  proof (cases "forEachRule rules line dev plat (s, ev)")
    case (fields res s1 ev1)
    then show ?thesis using Cons.IH [of s1 ev1] by (cases res) auto
  qed
qed

text \<open>
  A handler that throws ends the ingestion: when the lines before a line and the rules
  before a rule have been dealt with normally and the handler of the rule throws on the
  line, the ingestion ends with that exception, in the state the handler left, and the
  evaluation of the rule against the line is the last one made.
\<close>

lemma throwing_handler_ends_ingestion:
  assumes lines: "split_lines message = before @ line # after"
    and rules: "forEachOrder (parseRules svc) = pre @ (k, r) # post"
    and earlier_lines:
      "forEachLine (forEachOrder (parseRules svc)) before deviceIdentifier devicePlatform (s, [])
         = (Inr (), s1, ev1)"
    and earlier_rules:
      "forEachRule pre line deviceIdentifier devicePlatform (s1, ev1) = (Inr (), s2, ev2)"
    and applies: "platformApplies devicePlatform r"
    and matches: "regex r line = Some m"
    and throws: "handler r m deviceIdentifier s2 = (Inl e, s3)"
  shows "processDeviceLogResponse svc message deviceIdentifier devicePlatform s
           = (Inl e, s3, ev2 @ [(name r, line)])"
proof -
  have here: "forEachRule ((k, r) # post) line deviceIdentifier devicePlatform (s2, ev2)
                = (Inl e, s3, ev2 @ [(name r, line)])"
    using applies matches throws by simp
  have "forEachRule (pre @ (k, r) # post) line deviceIdentifier devicePlatform (s1, ev1)
          = (Inl e, s3, ev2 @ [(name r, line)])"
    unfolding forEachRule_append earlier_rules using here by simp
  then have this_line:
    "forEachLine (pre @ (k, r) # post) (line # after) deviceIdentifier devicePlatform (s1, ev1)
       = (Inl e, s3, ev2 @ [(name r, line)])"
    by simp
  show ?thesis
    unfolding processDeviceLogResponse_def lines forEachLine_append earlier_lines
    using this_line rules by simp
qed

text \<open>
  Claim C8, amended. During ingestion of a log chunk the lines are taken in order and,
  for every line, the registered rules in the order of \<^verbatim>\<open>_.forEach\<close>; a rule is evaluated
  when the device platform is unset, or its platform filter is unset, or the two are equal
  without regard to case. As long as no handler throws, every such rule is evaluated
  against every line. An exception thrown inside a rule's handler is not caught: it ends
  the ingestion with that exception, and the evaluation of the throwing rule is the last
  one made, so the rules after it and the lines after its line are not evaluated.
\<close>

theorem evaluations_until_a_handler_throws:
  "(\<exists>after.
      concat (map (\<lambda>line. map (\<lambda>(k, r). (name r, line))
         (filter (\<lambda>(k, r). platformApplies devicePlatform r) (forEachOrder (parseRules svc))))
         (split_lines message))
        = snd (snd (processDeviceLogResponse svc message deviceIdentifier devicePlatform s)) @ after
      \<and> (fst (processDeviceLogResponse svc message deviceIdentifier devicePlatform s) = Inr ()
           \<longrightarrow> after = [])
      \<and> (\<forall>e. fst (processDeviceLogResponse svc message deviceIdentifier devicePlatform s) = Inl e
           \<longrightarrow> (\<exists>k r line m s0.
                  (k, r) \<in> set (parseRules svc) \<and> line \<in> set (split_lines message) \<and>
                  platformApplies devicePlatform r \<and>
                  last (snd (snd (processDeviceLogResponse svc message deviceIdentifier
                                    devicePlatform s))) = (name r, line) \<and>
                  regex r line = Some m \<and> fst (handler r m deviceIdentifier s0) = Inl e)))
   \<and> (\<forall>before line after pre k r post s1 ev1 s2 ev2 m e s3.
        split_lines message = before @ line # after \<and>
        forEachOrder (parseRules svc) = pre @ (k, r) # post \<and>
        forEachLine (forEachOrder (parseRules svc)) before deviceIdentifier devicePlatform (s, [])
          = (Inr (), s1, ev1) \<and>
        forEachRule pre line deviceIdentifier devicePlatform (s1, ev1) = (Inr (), s2, ev2) \<and>
        platformApplies devicePlatform r \<and> regex r line = Some m \<and>
        handler r m deviceIdentifier s2 = (Inl e, s3)
        \<longrightarrow> processDeviceLogResponse svc message deviceIdentifier devicePlatform s
              = (Inl e, s3, ev2 @ [(name r, line)]))"
proof (intro conjI allI impI)
  from evaluations_are_a_prefix [of devicePlatform svc message deviceIdentifier s]
  show "\<exists>after.
      concat (map (\<lambda>line. map (\<lambda>(k, r). (name r, line))
         (filter (\<lambda>(k, r). platformApplies devicePlatform r) (forEachOrder (parseRules svc))))
         (split_lines message))
        = snd (snd (processDeviceLogResponse svc message deviceIdentifier devicePlatform s)) @ after
      \<and> (fst (processDeviceLogResponse svc message deviceIdentifier devicePlatform s) = Inr ()
           \<longrightarrow> after = [])
      \<and> (\<forall>e. fst (processDeviceLogResponse svc message deviceIdentifier devicePlatform s) = Inl e
           \<longrightarrow> (\<exists>k r line m s0.
                  (k, r) \<in> set (parseRules svc) \<and> line \<in> set (split_lines message) \<and>
                  platformApplies devicePlatform r \<and>
                  last (snd (snd (processDeviceLogResponse svc message deviceIdentifier
                                    devicePlatform s))) = (name r, line) \<and>
                  regex r line = Some m \<and> fst (handler r m deviceIdentifier s0) = Inl e))"
    .
next
  fix before line after pre k r post s1 ev1 s2 ev2 m e s3
  assume h: "split_lines message = before @ line # after \<and>
        forEachOrder (parseRules svc) = pre @ (k, r) # post \<and>
        forEachLine (forEachOrder (parseRules svc)) before deviceIdentifier devicePlatform (s, [])
          = (Inr (), s1, ev1) \<and>
        forEachRule pre line deviceIdentifier devicePlatform (s1, ev1) = (Inr (), s2, ev2) \<and>
        platformApplies devicePlatform r \<and> regex r line = Some m \<and>
        handler r m deviceIdentifier s2 = (Inl e, s3)"
  show "processDeviceLogResponse svc message deviceIdentifier devicePlatform s
              = (Inl e, s3, ev2 @ [(name r, line)])"
    by (rule throwing_handler_ends_ingestion
          [OF h [THEN conjunct1]
              h [THEN conjunct2, THEN conjunct1]
              h [THEN conjunct2, THEN conjunct2, THEN conjunct1]
              h [THEN conjunct2, THEN conjunct2, THEN conjunct2, THEN conjunct1]
              h [THEN conjunct2, THEN conjunct2, THEN conjunct2, THEN conjunct2, THEN conjunct1]
              h [THEN conjunct2, THEN conjunct2, THEN conjunct2, THEN conjunct2, THEN conjunct2,
                 THEN conjunct1]
              h [THEN conjunct2, THEN conjunct2, THEN conjunct2, THEN conjunct2, THEN conjunct2,
                 THEN conjunct2]])
qed

text \<open>
  Witness for C8 (amended), on a chunk of two lines from an Android device. First, two
  rules whose handlers do not throw, rule \<open>a\<close> for any platform and rule \<open>b\<close> for
  \<^verbatim>\<open>android\<close>: both are evaluated against both lines. Then three rules, of which the
  second throws on the first line: the first rule has handled the line, the ingestion
  ends with the exception, and neither the third rule nor the second line is evaluated.
\<close>

theorem evaluations_until_a_handler_throws_witness:
  "fst (processDeviceLogResponse
     \<lparr>parseRules =
        [(''a'', \<lparr>regex = anyLine, handler = recordMatch, name = ''a'', platform = None\<rparr>),
         (''b'', \<lparr>regex = anyLine, handler = recordMatch, name = ''b'', platform = Some ''android''\<rparr>)],
      parsingStarted = True\<rparr>
     [CHR ''x'', CHR 0x0A, CHR ''y''] ''dev-1'' (Some ''Android'') []) = Inr ()
   \<and> snd (snd (processDeviceLogResponse
     \<lparr>parseRules =
        [(''a'', \<lparr>regex = anyLine, handler = recordMatch, name = ''a'', platform = None\<rparr>),
         (''b'', \<lparr>regex = anyLine, handler = recordMatch, name = ''b'', platform = Some ''android''\<rparr>)],
      parsingStarted = True\<rparr>
     [CHR ''x'', CHR 0x0A, CHR ''y''] ''dev-1'' (Some ''Android'') []))
     = [(''a'', ''x''), (''b'', ''x''), (''a'', ''y''), (''b'', ''y'')]
   \<and> processDeviceLogResponse
     \<lparr>parseRules =
        [(''a'', \<lparr>regex = anyLine, handler = recordMatch, name = ''a'', platform = None\<rparr>),
         (''b'', \<lparr>regex = anyLine, handler = throwError, name = ''b'', platform = Some ''android''\<rparr>),
         (''c'', \<lparr>regex = anyLine, handler = recordMatch, name = ''c'', platform = None\<rparr>)],
      parsingStarted = True\<rparr>
     [CHR ''x'', CHR 0x0A, CHR ''y''] ''dev-1'' (Some ''Android'') []
     = (Inl (Error ''handler failed''), [(''dev-1'', [''x''])], [(''a'', ''x''), (''b'', ''x'')])"
proof -
  let ?svc = "\<lparr>parseRules =
        [(''a'', \<lparr>regex = anyLine, handler = recordMatch, name = ''a'', platform = None\<rparr>),
         (''b'', \<lparr>regex = anyLine, handler = recordMatch, name = ''b'', platform = Some ''android''\<rparr>)],
      parsingStarted = True\<rparr>"
  let ?run = "processDeviceLogResponse ?svc [CHR ''x'', CHR 0x0A, CHR ''y''] ''dev-1''
      (Some ''Android'') ([] :: (string \<times> string list) list)"
  have ok: "fst ?run = Inr ()"
    by (simp add: processDeviceLogResponse_def forEachOrder_def isArrayIndex_def
        platformApplies_def falsy_def anyLine_def recordMatch_def toLowerCase_def toLowerChar_def)
  from evaluations_until_a_handler_throws [of "Some ''Android''" ?svc
      "[CHR ''x'', CHR 0x0A, CHR ''y'']" "''dev-1''" "[]", THEN conjunct1]
  obtain after where
    "concat (map (\<lambda>line. map (\<lambda>(k, r). (name r, line))
        (filter (\<lambda>(k, r). platformApplies (Some ''Android'') r) (forEachOrder (parseRules ?svc))))
        (split_lines [CHR ''x'', CHR 0x0A, CHR ''y''])) = snd (snd ?run) @ after"
    and "fst ?run = Inr () \<longrightarrow> after = []"
    by blast
  with ok have "snd (snd ?run) =
      concat (map (\<lambda>line. map (\<lambda>(k, r). (name r, line))
        (filter (\<lambda>(k, r). platformApplies (Some ''Android'') r) (forEachOrder (parseRules ?svc))))
        (split_lines [CHR ''x'', CHR 0x0A, CHR ''y'']))"
    by simp
  also have "\<dots> = [(''a'', ''x''), (''b'', ''x''), (''a'', ''y''), (''b'', ''y'')]"
    by (simp add: forEachOrder_def isArrayIndex_def platformApplies_def falsy_def
        toLowerCase_def toLowerChar_def)
  finally have all: "snd (snd ?run) = [(''a'', ''x''), (''b'', ''x''), (''a'', ''y''), (''b'', ''y'')]" .
  let ?ra = "\<lparr>regex = anyLine, handler = recordMatch, name = ''a'', platform = None\<rparr>"
  let ?rb = "\<lparr>regex = anyLine, handler = throwError, name = ''b'', platform = Some ''android''\<rparr>"
  let ?rc = "\<lparr>regex = anyLine, handler = recordMatch, name = ''c'', platform = None\<rparr>"
  let ?svc2 = "\<lparr>parseRules = [(''a'', ?ra), (''b'', ?rb), (''c'', ?rc)], parsingStarted = True\<rparr>"
  have h: "split_lines [CHR ''x'', CHR 0x0A, CHR ''y''] = [] @ ''x'' # [''y''] \<and>
        forEachOrder (parseRules ?svc2) = [(''a'', ?ra)] @ (''b'', ?rb) # [(''c'', ?rc)] \<and>
        forEachLine (forEachOrder (parseRules ?svc2)) [] ''dev-1'' (Some ''Android'') ([], [])
          = (Inr (), [], []) \<and>
        forEachRule [(''a'', ?ra)] ''x'' ''dev-1'' (Some ''Android'') ([], [])
          = (Inr (), [(''dev-1'', [''x''])], [(''a'', ''x'')]) \<and>
        platformApplies (Some ''Android'') ?rb \<and> regex ?rb ''x'' = Some [''x''] \<and>
        handler ?rb [''x''] ''dev-1'' [(''dev-1'', [''x''])]
          = (Inl (Error ''handler failed''), [(''dev-1'', [''x''])])"
    by (simp add: forEachOrder_def isArrayIndex_def platformApplies_def falsy_def anyLine_def
        recordMatch_def throwError_def toLowerCase_def toLowerChar_def)
  from evaluations_until_a_handler_throws [of "Some ''Android''" ?svc2
      "[CHR ''x'', CHR 0x0A, CHR ''y'']" "''dev-1''" "[]", THEN conjunct2, rule_format, OF h]
  have stop: "processDeviceLogResponse ?svc2 [CHR ''x'', CHR 0x0A, CHR ''y''] ''dev-1''
      (Some ''Android'') []
      = (Inl (Error ''handler failed''), [(''dev-1'', [''x''])], [(''a'', ''x''), (''b'', ''x'')])"
    by simp
  show ?thesis
    by (intro conjI) (rule ok, rule all, rule stop)
qed

text \<open>The name of the rule of \<^verbatim>\<open>HmrStatusService\<close> is none of the inherited names.\<close>

lemma hmrStatus_not_inherited: "''hmrStatus'' \<notin> set inheritedNames"
  by (simp add: inheritedNames_def)

text \<open>
  A rule whose name is an inherited one cannot be registered at all: the test of
  \<^verbatim>\<open>addParseRule\<close> finds the inherited value.
\<close>

lemma inherited_name_is_not_registered:
  "addParseRule \<lparr>regex = anyLine, handler = recordMatch, name = ''constructor'', platform = None\<rparr>
     \<lparr>parseRules = [], parsingStarted = False\<rparr>
   = (Inl (Error ''Log parse rule already exists.''), \<lparr>parseRules = [], parsingStarted = False\<rparr>)"
  by (simp add: addParseRule_def inheritedNames_def failWithoutHelp_def)

text \<open>
  Claim C10. Registering a log parse rule under a name that already exists fails with
  the error of \<^verbatim>\<open>failWithoutHelp\<close>; the service is left as it was, so the rule registered
  before under that name is still registered, and the service dispatches every log chunk
  as it did before the failed registration.
\<close>

theorem second_registration_fails:
  assumes "map_of (parseRules svc) (name rule) = Some registered"
  shows "addParseRule rule svc = (Inl (Error ''Log parse rule already exists.''), svc)
    \<and> map_of (parseRules (snd (addParseRule rule svc))) (name rule) = Some registered
    \<and> processDeviceLogResponse (snd (addParseRule rule svc)) message deviceIdentifier devicePlatform s
        = processDeviceLogResponse svc message deviceIdentifier devicePlatform s"
  using assms by (simp add: addParseRule_def failWithoutHelp_def)

text \<open>
  Witness for C10: after \<^verbatim>\<open>recordMatch\<close> has been registered as \<open>hmrStatus\<close>, registering
  \<^verbatim>\<open>throwError\<close> under the same name fails, and a line is still dispatched to
  \<^verbatim>\<open>recordMatch\<close>.
\<close>

theorem second_registration_fails_witness:
  "fst (addParseRule \<lparr>regex = anyLine, handler = throwError, name = ''hmrStatus'', platform = None\<rparr>
     (snd (addParseRule \<lparr>regex = anyLine, handler = recordMatch, name = ''hmrStatus'', platform = None\<rparr>
        \<lparr>parseRules = [], parsingStarted = False\<rparr>)))
   = Inl (Error ''Log parse rule already exists.'')
   \<and> processDeviceLogResponse
     (snd (addParseRule \<lparr>regex = anyLine, handler = throwError, name = ''hmrStatus'', platform = None\<rparr>
       (snd (addParseRule \<lparr>regex = anyLine, handler = recordMatch, name = ''hmrStatus'', platform = None\<rparr>
          \<lparr>parseRules = [], parsingStarted = False\<rparr>))))
     ''x'' ''dev-1'' None []
   = (Inr (), [(''dev-1'', [''x''])], [(''hmrStatus'', ''x'')])"
proof -
  let ?first = "\<lparr>regex = anyLine, handler = recordMatch, name = ''hmrStatus'', platform = None\<rparr>"
  let ?second = "\<lparr>regex = anyLine, handler = throwError, name = ''hmrStatus'', platform = None\<rparr>"
  let ?svc = "snd (addParseRule ?first \<lparr>parseRules = [], parsingStarted = False\<rparr>)"
  have reg: "map_of (parseRules ?svc) (name ?second) = Some ?first"
    by (simp add: addParseRule_def startParsingLogCore_def hmrStatus_not_inherited)
  have run: "processDeviceLogResponse ?svc ''x'' ''dev-1'' None []
      = (Inr (), [(''dev-1'', [''x''])], [(''hmrStatus'', ''x'')])"
    by (simp add: addParseRule_def startParsingLogCore_def hmrStatus_not_inherited processDeviceLogResponse_def
        forEachOrder_def isArrayIndex_def platformApplies_def falsy_def anyLine_def recordMatch_def)
  show ?thesis
    using second_registration_fails [OF reg, of "''x''" "''dev-1''" None "[]"] run by simp
qed

section \<open>Properties of the hot module reload status\<close>

subsection \<open>The regular expression on a status line\<close>

lemma literal_Some_iff: "literal p s = Some r \<longleftrightarrow> s = p @ r"
  by (induction p s rule: literal.induct) auto

lemma star_fails:
  "(\<And>n. n \<le> length (takeWhile cls s) \<Longrightarrow> rest (taken @ take n s) (drop n s) = None)
   \<Longrightarrow> star cls rest taken s = None"
proof (induction s arbitrary: taken)
  case Nil
  from Nil [of 0] show ?case by simp
next
  case (Cons c cs)
  have here: "rest taken (c # cs) = None" using Cons.prems [of 0] by simp
  show ?case
  proof (cases "cls c")
    case False
    with here show ?thesis by simp
  next
    case True
    have "star cls rest (taken @ [c]) cs = None"
    proof (rule Cons.IH)
      fix n assume "n \<le> length (takeWhile cls cs)"
      with True have "Suc n \<le> length (takeWhile cls (c # cs))" by simp
      from Cons.prems [OF this] show "rest ((taken @ [c]) @ take n cs) (drop n cs) = None" by simp
    qed
    with True here show ?thesis by simp
  qed
qed

lemma star_stops:
  assumes "list_all cls xs" "rest (taken @ xs) ys = Some r"
    and "\<And>n. 0 < n \<Longrightarrow> n \<le> length (takeWhile cls ys) \<Longrightarrow>
            rest (taken @ xs @ take n ys) (drop n ys) = None"
  shows "star cls rest taken (xs @ ys) = Some r"
  using assms
proof (induction xs arbitrary: taken)
  case Nil
  show ?case
  proof (cases ys)
    case Nil
    with Nil.prems show ?thesis by simp
  next
    case (Cons c cs)
    show ?thesis
    proof (cases "cls c")
      case False
      with Cons Nil.prems show ?thesis by simp
    next
      case True
      have "star cls rest (taken @ [c]) cs = None"
      proof (rule star_fails)
        fix n assume "n \<le> length (takeWhile cls cs)"
        with True Cons have "Suc n \<le> length (takeWhile cls ys)" by simp
        from Nil.prems(3) [OF _ this] Cons
        show "rest ((taken @ [c]) @ take n cs) (drop n cs) = None" by simp
      qed
      with True Cons Nil.prems show ?thesis by simp
    qed
  qed
next
  case (Cons x xs)
  have "star cls rest (taken @ [x]) (xs @ ys) = Some r"
    using Cons.prems by (intro Cons.IH) auto
  with Cons.prems show ?case by simp
qed

lemma no_marker_without_space:
  assumes "CHR '' '' \<notin> set zs"
  shows "literal '' hmr hash '' (drop k zs) = None"
proof (cases "literal '' hmr hash '' (drop k zs)")
  case None then show ?thesis .
next
  case (Some r)
  then have "drop k zs = '' hmr hash '' @ r" by (simp add: literal_Some_iff)
  then have "CHR '' '' \<in> set (drop k zs)" by simp
  then have "CHR '' '' \<in> set zs" by (meson in_set_dropD)
  with assms show ?thesis by simp
qed

lemma no_marker_inside:
  assumes "CHR '' '' \<notin> set zs" "0 < n"
  shows "literal '' hmr hash '' (drop n ('' hmr hash '' @ zs)) = None"
proof -
  consider "n = 1" | "n = 2" | "n = 3" | "n = 4" | "n = 5" | "n = 6" | "n = 7" | "n = 8"
    | "n = 9" | "10 \<le> n"
    using assms(2) by linarith
  then show ?thesis
  proof cases
    case 9
    have "literal ''hmr hash '' zs = None"
    proof (cases "literal ''hmr hash '' zs")
      case None then show ?thesis .
    next
      case (Some r)
      then have "zs = ''hmr hash '' @ r" by (simp add: literal_Some_iff)
      then have "CHR '' '' \<in> set zs" by simp
      with assms show ?thesis by simp
    qed
    with 9 show ?thesis by (cases zs) auto
  next
    case 10
    have "drop (n - 10) (drop 10 ('' hmr hash '' @ zs)) = drop n ('' hmr hash '' @ zs)"
      unfolding drop_drop using 10 by simp
    moreover have "drop 10 ('' hmr hash '' @ zs) = zs" by simp
    ultimately have "drop n ('' hmr hash '' @ zs) = drop (n - 10) zs" by simp
    with no_marker_without_space [OF assms(1)] show ?thesis by simp
  qed (cases zs; simp)+
qed

lemma matchHere_status_line:
  assumes P: "list_all lettersAndSpace P" and H: "list_all lowerAndDigits H"
  shows "matchHere (P @ '' hmr hash '' @ H @ ''.'')
           = Some [P @ '' hmr hash '' @ H @ ''.'', P, H]"
proof -
  have nospace: "CHR '' '' \<notin> set (H @ ''.'')"
    using H by (auto simp: list_all_iff lowerAndDigits_def)
  have g2: "star lowerAndDigits
                (\<lambda>group2 s3.
                   case literal ''.'' s3 of
                     None \<Rightarrow> None
                   | Some _ \<Rightarrow> Some [P @ '' hmr hash '' @ group2 @ ''.'', P, group2])
                [] (H @ ''.'') = Some [P @ '' hmr hash '' @ H @ ''.'', P, H]"
    by (rule star_stops [OF H]) (simp_all add: lowerAndDigits_def)
  show ?thesis
    unfolding matchHere_def
  proof (rule star_stops [where xs = P and ys = "'' hmr hash '' @ H @ ''.''", OF P])
    show "(case literal '' hmr hash '' ('' hmr hash '' @ H @ ''.'') of
            None \<Rightarrow> None
          | Some s2 \<Rightarrow>
              star lowerAndDigits
                (\<lambda>group2 s3.
                   case literal ''.'' s3 of
                     None \<Rightarrow> None
                   | Some _ \<Rightarrow> Some [([] @ P) @ '' hmr hash '' @ group2 @ ''.'', [] @ P, group2])
                [] s2) = Some [P @ '' hmr hash '' @ H @ ''.'', P, H]"
      using g2 by (simp cong: option.case_cong)
  next
    fix n :: nat assume "0 < n"
    from no_marker_inside [OF nospace this]
    show "(case literal '' hmr hash '' (drop n ('' hmr hash '' @ H @ ''.'')) of
            None \<Rightarrow> None
          | Some s2 \<Rightarrow>
              star lowerAndDigits
                (\<lambda>group2 s3.
                   case literal ''.'' s3 of
                     None \<Rightarrow> None
                   | Some _ \<Rightarrow>
                       Some [([] @ P @ take n ('' hmr hash '' @ H @ ''.'')) @ '' hmr hash '' @ group2 @ ''.'',
                             [] @ P @ take n ('' hmr hash '' @ H @ ''.''), group2])
                [] s2) = None"
      by (simp cong: option.case_cong)
  qed
qed

lemma exec_status_line:
  assumes "list_all lettersAndSpace P" "list_all lowerAndDigits H"
  shows "HMR_STATUS_LOG_REGEX (P @ '' hmr hash '' @ H @ ''.'')
           = Some [P @ '' hmr hash '' @ H @ ''.'', P, H]"
  using matchHere_status_line [OF assms]
  by (cases "P @ '' hmr hash '' @ H @ ''.''") auto

subsection \<open>Log events leave the timers alone; a cancelled wait stays pending\<close>

lemma hmrParser_rules:
  "hmrParser c = \<lparr>parseRules = [(''hmrStatus'', hmrStatusRule c)], parsingStarted = True\<rparr>"
  by (simp add: hmrParser_def attachToHmrStatusEvent_def addParseRule_def hmrStatusRule_def
      startParsingLogCore_def hmrStatus_not_inherited)

lemma forEachOrder_hmr: "forEachOrder [(''hmrStatus'', r)] = [(''hmrStatus'', r)]"
  by (simp add: forEachOrder_def isArrayIndex_def)

lemma setData_timers: "timers (setData st h d s) = timers s"
  by (simp add: setData_def Let_def)

lemma setData_intervals: "intervals (setData st h d s) = intervals s"
  by (simp add: setData_def Let_def)

lemma handleHmrStatusFound_timers:
  "timers (snd (handleHmrStatusFound c m d s)) = timers s"
  by (simp add: handleHmrStatusFound_def Let_def setData_timers split: list.splits option.splits)

lemma forEachLine_hmr_timers:
  "timers (fst (snd (forEachLine [(''hmrStatus'', hmrStatusRule c)] lines d p (s, ev)))) = timers s"
proof (induction lines arbitrary: s ev)
  case Nil
  show ?case by simp
next
  case (Cons line lines)
  show ?case
  proof (cases "platformApplies p (hmrStatusRule c)")
    case False
    then show ?thesis using Cons.IH by simp
  next
    case True
    show ?thesis
    proof (cases "regex (hmrStatusRule c) line")
      case None
      with True show ?thesis using Cons.IH by simp
    next
      case (Some m)
      obtain r s1 where h: "handler (hmrStatusRule c) m d s = (r, s1)"
        by (cases "handler (hmrStatusRule c) m d s")
      then have t: "timers s1 = timers s"
        using handleHmrStatusFound_timers [of c m d s] by (simp add: hmrStatusRule_def)
      show ?thesis
      proof (cases r)
        case (Inl e)
        with True Some h t show ?thesis by simp
      next
        case (Inr u)
        with True Some h t show ?thesis using Cons.IH by simp
      qed
    qed
  qed
qed

lemma DeviceLog_timers: "timers (hmr_step c (DeviceLog m d p) s) = timers s"
  by (simp add: processDeviceLogResponse_def hmrParser_rules forEachOrder_hmr forEachLine_hmr_timers)

lemma cancelled_step:
  assumes "t < length (timers s)" "\<not> active (timers s ! t)" "resolved (timers s ! t) = None"
  shows "t < length (timers (hmr_step c e s)) \<and> \<not> active (timers (hmr_step c e s) ! t)
         \<and> resolved (timers (hmr_step c e s) ! t) = None"
proof (cases e)
  case (Wait d h)
  with assms show ?thesis by (simp add: getHmrStatus_def Let_def nth_append)
next
  case (Fire u)
  with assms show ?thesis
    by (cases "u = t")
       (auto simp: intervalCallback_def Let_def clearInterval_def resolve_def nth_list_update
             split: option.splits)
next
  case (DeviceLog m d p)
  with assms show ?thesis by (simp only: DeviceLog_timers) simp
qed

lemma cancelled_run:
  assumes "t < length (timers s)" "\<not> active (timers s ! t)" "resolved (timers s ! t) = None"
  shows "resolved (timers (hmr_run c es s) ! t) = None"
  using assms
proof (induction es arbitrary: s)
  case Nil
  then show ?case by simp
next
  case (Cons e es)
  from cancelled_step [OF Cons.prems, of c e] Cons.IH show ?case by simp
qed

lemma hmr_run_append: "hmr_run c (es @ fs) s = hmr_run c fs (hmr_run c es s)"
  by (induction es arbitrary: s) auto

subsection \<open>What a status line records\<close>

lemma split_lines_single: "CHR 0x0A \<notin> set s \<Longrightarrow> split_lines s = [s]"
  by (induction s) (auto split: list.splits)

lemma lettersAndSpace_no_newline: "lettersAndSpace c \<Longrightarrow> c \<noteq> CHR 0x0A"
  by (auto simp: lettersAndSpace_def)

lemma lowerAndDigits_no_newline: "lowerAndDigits c \<Longrightarrow> c \<noteq> CHR 0x0A"
  by (auto simp: lowerAndDigits_def)

lemma status_line_no_newline:
  assumes "list_all lettersAndSpace P" "list_all lowerAndDigits H"
  shows "CHR 0x0A \<notin> set (P @ '' hmr hash '' @ H @ ''.'')"
proof -
  have "CHR 0x0A \<notin> set P"
    using assms(1) lettersAndSpace_no_newline by (auto simp: list_all_iff)
  moreover have "CHR 0x0A \<notin> set H"
    using assms(2) lowerAndDigits_no_newline by (auto simp: list_all_iff)
  ultimately show ?thesis by simp
qed

lemma DeviceLog_single_line:
  assumes "CHR 0x0A \<notin> set line" "HMR_STATUS_LOG_REGEX line = Some m"
  shows "hmr_step c (DeviceLog line D plat) s = snd (handleHmrStatusFound c m D s)"
proof -
  have ap: "platformApplies plat (hmrStatusRule c)"
    by (simp add: platformApplies_def hmrStatusRule_def falsy_def)
  have rx: "regex (hmrStatusRule c) line = Some m"
    using assms(2) by (simp add: hmrStatusRule_def)
  have hd: "handler (hmrStatusRule c) = handleHmrStatusFound c"
    by (simp add: hmrStatusRule_def)
  show ?thesis
    unfolding hmr_step.simps processDeviceLogResponse_def hmrParser_rules
    using ap rx
    by (simp add: forEachOrder_hmr split_lines_single [OF assms(1)] hd
        split: prod.splits sum.splits)
qed

lemma DeviceLog_status_line:
  assumes P: "list_all lettersAndSpace P" and H: "list_all lowerAndDigits H"
  shows "hmr_step c (DeviceLog (P @ '' hmr hash '' @ H @ ''.'') D plat) s
           = snd (handleHmrStatusFound c [P @ '' hmr hash '' @ H @ ''.'', P, H] D s)"
  by (rule DeviceLog_single_line [OF status_line_no_newline [OF P H] exec_status_line [OF P H]])

lemma getStatusByKey_setData:
  "getStatusByKey (setData status H D s) (D @ H) = Some status"
  by (simp add: getStatusByKey_def setData_def Let_def)

lemma success_line_state:
  assumes "list_all lowerAndDigits H" "HMR_SUCCESS_STATUS c \<noteq> 0"
  shows "hmr_step c (DeviceLog (''Successfully applied update with hmr hash '' @ H @ ''.'') D plat) s
           = setData (HMR_SUCCESS_STATUS c) H D s"
proof -
  have P: "list_all lettersAndSpace ''Successfully applied update with''"
    by (simp add: lettersAndSpace_def)
  have "hmr_step c (DeviceLog (''Successfully applied update with'' @ '' hmr hash '' @ H @ ''.'') D plat) s
          = setData (HMR_SUCCESS_STATUS c) H D s"
    unfolding DeviceLog_status_line [OF P assms(1)]
    using assms(2)
    by (simp add: handleHmrStatusFound_def trim_def isWhiteSpace_def SUCCESS_MESSAGE_def truthy_def)
  then show ?thesis by simp
qed

text \<open>
  For every device identifier \<open>D\<close> and every hash \<open>H\<close> of lower-case letters and digits:
  the success line records \<^verbatim>\<open>HMR_SUCCESS_STATUS\<close> under the key of \<open>D\<close> and \<open>H\<close>, the
  failure line records \<^verbatim>\<open>HMR_ERROR_STATUS\<close>, and the line that announces the check leaves
  the service as it is.
\<close>

lemma success_line_records_success:
  assumes "list_all lowerAndDigits H" "HMR_SUCCESS_STATUS c \<noteq> 0"
  shows "getStatusByKey
           (hmr_step c (DeviceLog (''Successfully applied update with hmr hash '' @ H @ ''.'') D plat) s)
           (D @ H) = Some (HMR_SUCCESS_STATUS c)"
  unfolding success_line_state [OF assms] by (rule getStatusByKey_setData)

lemma failure_line_records_error:
  assumes "list_all lowerAndDigits H" "HMR_ERROR_STATUS c \<noteq> 0"
  shows "getStatusByKey
           (hmr_step c (DeviceLog (''Cannot apply update with hmr hash '' @ H @ ''.'') D plat) s)
           (D @ H) = Some (HMR_ERROR_STATUS c)"
proof -
  have P: "list_all lettersAndSpace ''Cannot apply update with''"
    by (simp add: lettersAndSpace_def)
  have "hmr_step c (DeviceLog (''Cannot apply update with'' @ '' hmr hash '' @ H @ ''.'') D plat) s
          = setData (HMR_ERROR_STATUS c) H D s"
    unfolding DeviceLog_status_line [OF P assms(1)]
    using assms(2)
    by (simp add: handleHmrStatusFound_def trim_def isWhiteSpace_def SUCCESS_MESSAGE_def
        FAILED_MESSAGE_def truthy_def)
  then show ?thesis by (simp add: getStatusByKey_setData)
qed

lemma started_line_records_nothing:
  assumes "list_all lowerAndDigits H"
  shows "hmr_step c (DeviceLog (''Checking for updates to the bundle with hmr hash '' @ H @ ''.'') D plat) s
           = s"
proof -
  have P: "list_all lettersAndSpace ''Checking for updates to the bundle with''"
    by (simp add: lettersAndSpace_def)
  have "hmr_step c (DeviceLog (''Checking for updates to the bundle with'' @ '' hmr hash '' @ H @ ''.'') D plat) s
          = s"
    unfolding DeviceLog_status_line [OF P assms(1)]
    by (simp add: handleHmrStatusFound_def trim_def isWhiteSpace_def SUCCESS_MESSAGE_def
        FAILED_MESSAGE_def)
  then show ?thesis by simp
qed

subsection \<open>A wait that is alone on its key\<close>

text \<open>
  When the timer of a wait is the one stored under its key, its callback settles the wait
  as soon as it sees a truthy status or has used up its retries, and clears the timer.
\<close>

lemma callback_settles:
  assumes "t < length (timers s)" "active (timers s ! t)" "resolved (timers s ! t) = None"
    and "intervals s (timerKey (timers s ! t)) = Some (Some t)"
    and "truthy (getStatusByKey s (timerKey (timers s ! t))) \<or> retryCount (timers s ! t) = 0"
  shows "resolved (timers (intervalCallback t s) ! t)
           = Some (getStatusByKey s (timerKey (timers s ! t)))
         \<and> \<not> active (timers (intervalCallback t s) ! t)"
  using assms
  by (auto simp: intervalCallback_def Let_def clearInterval_def resolve_def)

lemma callback_retries:
  assumes "t < length (timers s)" "active (timers s ! t)"
    and "\<not> truthy (getStatusByKey s (timerKey (timers s ! t)))"
    and "retryCount (timers s ! t) = Suc n"
  shows "intervalCallback t s
           = s\<lparr>timers := (timers s)[t := (timers s ! t)\<lparr>retryCount := n\<rparr>]\<rparr>"
  using assms by (simp add: intervalCallback_def Let_def)

lemma retries_run:
  assumes "t < length (timers s)" "active (timers s ! t)"
    and "\<not> truthy (getStatusByKey s (timerKey (timers s ! t)))"
    and "retryCount (timers s ! t) = n + m"
  shows "hmr_run c (replicate n (Fire t)) s
           = s\<lparr>timers := (timers s)[t := (timers s ! t)\<lparr>retryCount := m\<rparr>]\<rparr>"
  using assms
proof (induction n arbitrary: s)
  case 0
  then have "(timers s ! t)\<lparr>retryCount := m\<rparr> = timers s ! t" by simp
  then have "(timers s)[t := (timers s ! t)\<lparr>retryCount := m\<rparr>] = timers s"
    by (simp only: list_update_id)
  then show ?case by simp
next
  case (Suc n)
  define tm where "tm = timers s ! t"
  define s1 where "s1 = s\<lparr>timers := (timers s)[t := tm\<lparr>retryCount := n + m\<rparr>]\<rparr>"
  have step: "intervalCallback t s = s1"
    unfolding s1_def tm_def using Suc.prems by (intro callback_retries) simp_all
  have nth: "timers s1 ! t = tm\<lparr>retryCount := n + m\<rparr>"
    unfolding s1_def using Suc.prems(1) by simp
  have a1: "t < length (timers s1)" unfolding s1_def using Suc.prems(1) by simp
  have a2: "active (timers s1 ! t)" unfolding nth tm_def using Suc.prems(2) by simp
  have st: "getStatusByKey s1 k = getStatusByKey s k" for k
    unfolding s1_def by (simp add: getStatusByKey_def)
  have a3: "\<not> truthy (getStatusByKey s1 (timerKey (timers s1 ! t)))"
    unfolding nth st tm_def using Suc.prems(3) by simp
  have a4: "retryCount (timers s1 ! t) = n + m" unfolding nth by simp
  have "hmr_run c (replicate n (Fire t)) s1
          = s1\<lparr>timers := (timers s1)[t := (timers s1 ! t)\<lparr>retryCount := m\<rparr>]\<rparr>"
    by (rule Suc.IH [OF a1 a2 a3 a4])
  also have "\<dots> = s\<lparr>timers := (timers s)[t := tm\<lparr>retryCount := m\<rparr>]\<rparr>"
    unfolding nth unfolding s1_def by simp
  finally show ?case
    unfolding tm_def using step by simp
qed

text \<open>
  A wait on a key that has no truthy status, started in any state and left alone: its
  timer fires forty times without effect, and the forty-first firing settles the wait
  with the falsy status and clears the timer.
\<close>

lemma lone_wait_times_out:
  assumes "\<not> truthy (getStatusByKey s (D @ H))"
  shows "resolved (timers (hmr_run c (Wait D H # replicate 41 (Fire (length (timers s)))) s)
                     ! length (timers s)) = Some (getStatusByKey s (D @ H))
       \<and> resolved (timers (hmr_run c (Wait D H # replicate 40 (Fire (length (timers s)))) s)
                     ! length (timers s)) = None
       \<and> \<not> active (timers (hmr_run c (Wait D H # replicate 41 (Fire (length (timers s)))) s)
                     ! length (timers s))"
proof -
  let ?t = "length (timers s)"
  let ?s1 = "snd (getHmrStatus D H s)"
  have s1: "?t < length (timers ?s1)" "active (timers ?s1 ! ?t)"
      "timerKey (timers ?s1 ! ?t) = D @ H" "retryCount (timers ?s1 ! ?t) = 40"
      "resolved (timers ?s1 ! ?t) = None" "intervals ?s1 (D @ H) = Some (Some ?t)"
      "getStatusByKey ?s1 (D @ H) = getStatusByKey s (D @ H)"
    by (simp_all add: getHmrStatus_def Let_def getStatusByKey_def)
  let ?s2 = "?s1\<lparr>timers := (timers ?s1)[?t := (timers ?s1 ! ?t)\<lparr>retryCount := 0\<rparr>]\<rparr>"
  have forty: "hmr_run c (replicate 40 (Fire ?t)) ?s1 = ?s2"
    using s1 assms by (intro retries_run) auto
  have s2: "?t < length (timers ?s2)" "active (timers ?s2 ! ?t)"
      "timerKey (timers ?s2 ! ?t) = D @ H" "retryCount (timers ?s2 ! ?t) = 0"
      "resolved (timers ?s2 ! ?t) = None" "intervals ?s2 (D @ H) = Some (Some ?t)"
      "getStatusByKey ?s2 (D @ H) = getStatusByKey s (D @ H)"
    using s1 by (simp_all add: getStatusByKey_def)
  have last: "resolved (timers (intervalCallback ?t ?s2) ! ?t) = Some (getStatusByKey ?s2 (D @ H))
              \<and> \<not> active (timers (intervalCallback ?t ?s2) ! ?t)"
    using callback_settles [of ?t ?s2] s2 by simp
  have split: "replicate 41 (Fire ?t) = replicate 40 (Fire ?t) @ [Fire ?t]"
    using replicate_add [of 40 1 "Fire ?t"] by simp
  have run41: "hmr_run c (Wait D H # replicate 41 (Fire ?t)) s = intervalCallback ?t ?s2"
    unfolding split by (simp add: hmr_run_append forty del: replicate.simps)
  have run40: "hmr_run c (Wait D H # replicate 40 (Fire ?t)) s = ?s2"
    by (simp add: forty del: replicate.simps)
  show ?thesis
    unfolding run41 run40 using last s2 by simp
qed

text \<open>
  A wait that is alone on its key and pending when the success line arrives: the next
  firing of its timer settles it with \<^verbatim>\<open>HMR_SUCCESS_STATUS\<close>. The line may arrive after any
  number of firings up to forty, or before the wait begins.
\<close>

lemma lone_wait_sees_success:
  assumes H: "list_all lowerAndDigits H" and ok: "HMR_SUCCESS_STATUS c \<noteq> 0"
    and quiet: "\<not> truthy (getStatusByKey s (D @ H))" and n: "n \<le> 40"
  shows "resolved (timers (hmr_run c
            (Wait D H # replicate n (Fire (length (timers s)))
               @ [DeviceLog (''Successfully applied update with hmr hash '' @ H @ ''.'') D plat,
                  Fire (length (timers s))]) s) ! length (timers s))
          = Some (Some (HMR_SUCCESS_STATUS c))"
proof -
  let ?t = "length (timers s)"
  let ?line = "''Successfully applied update with hmr hash '' @ H @ ''.''"
  let ?s1 = "snd (getHmrStatus D H s)"
  have s1: "?t < length (timers ?s1)" "active (timers ?s1 ! ?t)"
      "timerKey (timers ?s1 ! ?t) = D @ H" "retryCount (timers ?s1 ! ?t) = 40"
      "resolved (timers ?s1 ! ?t) = None" "intervals ?s1 (D @ H) = Some (Some ?t)"
      "getStatusByKey ?s1 (D @ H) = getStatusByKey s (D @ H)"
    by (simp_all add: getHmrStatus_def Let_def getStatusByKey_def)
  let ?s2 = "?s1\<lparr>timers := (timers ?s1)[?t := (timers ?s1 ! ?t)\<lparr>retryCount := 40 - n\<rparr>]\<rparr>"
  have fires: "hmr_run c (replicate n (Fire ?t)) ?s1 = ?s2"
    using s1 quiet n by (intro retries_run) auto
  let ?s3 = "setData (HMR_SUCCESS_STATUS c) H D ?s2"
  have log: "hmr_step c (DeviceLog ?line D plat) ?s2 = ?s3"
    by (rule success_line_state [OF H ok])
  have s3: "?t < length (timers ?s3)" "active (timers ?s3 ! ?t)"
      "timerKey (timers ?s3 ! ?t) = D @ H" "resolved (timers ?s3 ! ?t) = None"
      "intervals ?s3 (D @ H) = Some (Some ?t)"
      "getStatusByKey ?s3 (D @ H) = Some (HMR_SUCCESS_STATUS c)"
    using s1 by (simp_all add: setData_timers setData_intervals getStatusByKey_setData)
  have "truthy (getStatusByKey ?s3 (timerKey (timers ?s3 ! ?t)))"
    using s3 ok by (simp add: truthy_def)
  with callback_settles [of ?t ?s3] s3
  have last: "resolved (timers (intervalCallback ?t ?s3) ! ?t) = Some (Some (HMR_SUCCESS_STATUS c))"
    by simp
  have "hmr_run c (Wait D H # replicate n (Fire ?t) @ [DeviceLog ?line D plat, Fire ?t]) s
          = intervalCallback ?t ?s3"
    using fires log by (simp add: hmr_run_append del: replicate.simps)
  with last show ?thesis by simp
qed

lemma later_wait_sees_success:
  assumes H: "list_all lowerAndDigits H" and ok: "HMR_SUCCESS_STATUS c \<noteq> 0"
  shows "resolved (timers (hmr_run c
            [DeviceLog (''Successfully applied update with hmr hash '' @ H @ ''.'') D plat,
             Wait D H, Fire (length (timers s))] s) ! length (timers s))
          = Some (Some (HMR_SUCCESS_STATUS c))"
proof -
  let ?t = "length (timers s)"
  let ?line = "''Successfully applied update with hmr hash '' @ H @ ''.''"
  let ?s1 = "setData (HMR_SUCCESS_STATUS c) H D s"
  have log: "hmr_step c (DeviceLog ?line D plat) s = ?s1"
    by (rule success_line_state [OF H ok])
  let ?s2 = "snd (getHmrStatus D H ?s1)"
  have s2: "?t < length (timers ?s2)" "active (timers ?s2 ! ?t)"
      "timerKey (timers ?s2 ! ?t) = D @ H" "resolved (timers ?s2 ! ?t) = None"
      "intervals ?s2 (D @ H) = Some (Some ?t)"
      "getStatusByKey ?s2 (D @ H) = Some (HMR_SUCCESS_STATUS c)"
    by (simp_all add: getHmrStatus_def Let_def setData_timers getStatusByKey_def setData_def)
  have "truthy (getStatusByKey ?s2 (timerKey (timers ?s2 ! ?t)))"
    using s2 ok by (simp add: truthy_def)
  with callback_settles [of ?t ?s2] s2
  have last: "resolved (timers (intervalCallback ?t ?s2) ! ?t) = Some (Some (HMR_SUCCESS_STATUS c))"
    by simp
  have "hmr_run c [DeviceLog ?line D plat, Wait D H, Fire ?t] s = intervalCallback ?t ?s2"
    using log by (simp add: setData_timers)
  with last show ?thesis by simp
qed

subsection \<open>Two waits on one key\<close>

text \<open>
  Claim C7 is right and the code breaks it. \<^verbatim>\<open>getHmrStatus\<close> stores its timer in
  \<^verbatim>\<open>intervals[key]\<close>, and a second call for the same key, made while the first wait is
  pending, overwrites that entry. No status is ever recorded here. The timer of the first
  wait fires first in every round; at its forty-first firing the first wait is settled
  with \<^verbatim>\<open>null\<close> and its callback clears \<^verbatim>\<open>intervals[key]\<close>, which is the timer of the second
  wait. The second wait is left pending with its timer cleared, and whatever happens
  later it is never settled. The two numbers of \<^verbatim>\<open>HmrConstants\<close> play no part.
\<close>

theorem overlapping_wait_never_times_out:
  "timers (hmr_run \<lparr>HMR_SUCCESS_STATUS = 2, HMR_ERROR_STATUS = 3\<rparr>
      ([Wait ''dev-1'' ''abc123'', Wait ''dev-1'' ''abc123''] @ concat (replicate 41 [Fire 0, Fire 1]))
      newHmrStatusService)
   = [\<lparr>timerKey = ''dev-1abc123'', retryCount = 0, active = True, resolved = Some None\<rparr>,
      \<lparr>timerKey = ''dev-1abc123'', retryCount = 0, active = False, resolved = None\<rparr>]
   \<and> (\<forall>later. resolved (timers (hmr_run \<lparr>HMR_SUCCESS_STATUS = 2, HMR_ERROR_STATUS = 3\<rparr>
        (([Wait ''dev-1'' ''abc123'', Wait ''dev-1'' ''abc123'']
            @ concat (replicate 41 [Fire 0, Fire 1])) @ later)
        newHmrStatusService) ! 1) = None)"
proof -
  let ?c = "\<lparr>HMR_SUCCESS_STATUS = 2, HMR_ERROR_STATUS = 3\<rparr>"
  let ?es = "[Wait ''dev-1'' ''abc123'', Wait ''dev-1'' ''abc123'']
               @ concat (replicate 41 [Fire 0, Fire 1])"
  have now: "timers (hmr_run ?c ?es newHmrStatusService)
      = [\<lparr>timerKey = ''dev-1abc123'', retryCount = 0, active = True, resolved = Some None\<rparr>,
         \<lparr>timerKey = ''dev-1abc123'', retryCount = 0, active = False, resolved = None\<rparr>]"
    by code_simp
  have never: "resolved (timers (hmr_run ?c (?es @ later) newHmrStatusService) ! 1) = None"
    for later
  proof -
    have "hmr_run ?c (?es @ later) newHmrStatusService
            = hmr_run ?c later (hmr_run ?c ?es newHmrStatusService)"
      by (rule hmr_run_append)
    moreover
    have "resolved (timers (hmr_run ?c later (hmr_run ?c ?es newHmrStatusService)) ! 1) = None"
      by (rule cancelled_run; simp only: now; simp)
    ultimately show ?thesis by (simp only:)
  qed
  show ?thesis
    by (intro conjI allI) (rule now, rule never)
qed

text \<open>
  Claim C6 is right and the code breaks it, through the defect shown for C7. Two waits
  for \<open>dev-1\<close> and \<open>abc123\<close> are pending, each timer has fired once, and the success line
  is ingested. The timer of the first wait fires next: the first wait is settled with
  \<^verbatim>\<open>HMR_SUCCESS_STATUS\<close>, and its callback clears the timer of the second wait. The second
  wait, pending when the line was ingested, is never settled.
\<close>

theorem overlapping_wait_misses_success:
  "getStatusByKey (hmr_run \<lparr>HMR_SUCCESS_STATUS = 2, HMR_ERROR_STATUS = 3\<rparr>
      [Wait ''dev-1'' ''abc123'', Wait ''dev-1'' ''abc123'', Fire 0, Fire 1,
       DeviceLog ''Successfully applied update with hmr hash abc123.'' ''dev-1'' (Some ''Android''),
       Fire 0]
      newHmrStatusService) ''dev-1abc123'' = Some 2
   \<and> timers (hmr_run \<lparr>HMR_SUCCESS_STATUS = 2, HMR_ERROR_STATUS = 3\<rparr>
      [Wait ''dev-1'' ''abc123'', Wait ''dev-1'' ''abc123'', Fire 0, Fire 1,
       DeviceLog ''Successfully applied update with hmr hash abc123.'' ''dev-1'' (Some ''Android''),
       Fire 0]
      newHmrStatusService)
   = [\<lparr>timerKey = ''dev-1abc123'', retryCount = 39, active = True, resolved = Some (Some 2)\<rparr>,
      \<lparr>timerKey = ''dev-1abc123'', retryCount = 39, active = False, resolved = None\<rparr>]
   \<and> (\<forall>later. resolved (timers (hmr_run \<lparr>HMR_SUCCESS_STATUS = 2, HMR_ERROR_STATUS = 3\<rparr>
        ([Wait ''dev-1'' ''abc123'', Wait ''dev-1'' ''abc123'', Fire 0, Fire 1,
          DeviceLog ''Successfully applied update with hmr hash abc123.'' ''dev-1'' (Some ''Android''),
          Fire 0] @ later)
        newHmrStatusService) ! 1) = None)"
proof -
  let ?c = "\<lparr>HMR_SUCCESS_STATUS = 2, HMR_ERROR_STATUS = 3\<rparr>"
  let ?es = "[Wait ''dev-1'' ''abc123'', Wait ''dev-1'' ''abc123'', Fire 0, Fire 1,
       DeviceLog ''Successfully applied update with hmr hash abc123.'' ''dev-1'' (Some ''Android''),
       Fire 0]"
  have status: "getStatusByKey (hmr_run ?c ?es newHmrStatusService) ''dev-1abc123'' = Some 2"
    by code_simp
  have now: "timers (hmr_run ?c ?es newHmrStatusService)
      = [\<lparr>timerKey = ''dev-1abc123'', retryCount = 39, active = True, resolved = Some (Some 2)\<rparr>,
         \<lparr>timerKey = ''dev-1abc123'', retryCount = 39, active = False, resolved = None\<rparr>]"
    by code_simp
  have never: "resolved (timers (hmr_run ?c (?es @ later) newHmrStatusService) ! 1) = None"
    for later
  proof -
    have "hmr_run ?c (?es @ later) newHmrStatusService
            = hmr_run ?c later (hmr_run ?c ?es newHmrStatusService)"
      by (rule hmr_run_append)
    moreover
    have "resolved (timers (hmr_run ?c later (hmr_run ?c ?es newHmrStatusService)) ! 1) = None"
      by (rule cancelled_run; simp only: now; simp)
    ultimately show ?thesis by (simp only:)
  qed
  show ?thesis
    by (intro conjI allI) (rule status, rule now, rule never)
qed

section \<open>Properties of the preview synchronisation\<close>

subsection \<open>The payload\<close>

lemma indexOf_ge: "- 1 \<le> indexOf s sub"
  by (induction s) (auto simp: Let_def)

lemma indexOf_occursIn: "indexOf s sub = - 1 \<longleftrightarrow> \<not> occursIn sub s"
proof (induction s)
  case Nil
  show ?case by simp
next
  case (Cons c cs)
  show ?case using Cons.IH indexOf_ge [of cs sub] by (auto simp: Let_def)
qed

lemma occursIn_iff: "occursIn sub s \<longleftrightarrow> (\<exists>a b. s = a @ sub @ b)"
proof (induction s)
  case Nil
  show ?case by auto
next
  case (Cons c cs)
  show ?case
  proof
    assume "occursIn sub (c # cs)"
    then consider "take (length sub) (c # cs) = sub" | "occursIn sub cs" by auto
    then show "\<exists>a b. c # cs = a @ sub @ b"
    proof cases
      case 1
      then have "c # cs = [] @ sub @ drop (length sub) (c # cs)"
        by (metis append_Nil append_take_drop_id)
      then show ?thesis by blast
    next
      case 2
      with Cons.IH obtain a b where "cs = a @ sub @ b" by blast
      then have "c # cs = (c # a) @ sub @ b" by simp
      then show ?thesis by blast
    qed
  next
    assume "\<exists>a b. c # cs = a @ sub @ b"
    then obtain a b where ab: "c # cs = a @ sub @ b" by blast
    show "occursIn sub (c # cs)"
    proof (cases a)
      case Nil
      with ab have "take (length sub) (c # cs) = sub" by simp
      then show ?thesis by simp
    next
      case (Cons x a')
      with ab have "cs = a' @ sub @ b" by simp
      with Cons.IH have "occursIn sub cs" by blast
      then show ?thesis by simp
    qed
  qed
qed

text \<open>
  Claim C9, as stated, fails. \<^verbatim>\<open>getFilesPayload\<close> filters \<^verbatim>\<open>filesToSync\<close> only; every path
  in \<^verbatim>\<open>filesToRemove\<close> becomes an unlink entry. The removed file below lies under
  \<^verbatim>\<open>tns_modules\<close> and has the extension \<^verbatim>\<open>.ts\<close>, and the payload has an unlink entry for it.
\<close>

theorem removed_excluded_file_is_sent:
  "files (getFilesPayload sampleConstants sampleServices
     \<lparr>appDestinationDirectoryPath = ''platforms/android/assets'', normalizedPlatformName = ''Android''\<rparr>
     \<lparr>projectDir = ''proj''\<rparr>
     [] [''proj/app/tns_modules/a.ts''])
   = [\<lparr>event = ''unlink'', file' = ''tns_modules/a.ts'', binary = False, fileContents = []\<rparr>]"
  by (simp add: getFilesPayload_def createFilePayload_def sampleConstants_def sampleServices_def
      CHANGE_EVENT_NAME_def UNLINK_EVENT_NAME_def sample_relative_def sample_join_def
      sample_info_def sample_false_def Let_def)

text \<open>
  Claim C9, amended. For every payload produced by a sync cycle, the change entries are
  made, in order, from the files to sync that are not excluded: no change entry is made
  from a file whose path contains the name of the dependency directory or of the native
  resource directory, from an excluded file, or from a file whose extension is in the
  excluded set. The unlink entries are made from every path to remove, unfiltered.
\<close>

theorem change_entries_skip_excluded_files:
  "files (getFilesPayload k sv platformData projectData filesToSync filesToRemove)
     = map (\<lambda>f. createFilePayload k sv f platformData projectData CHANGE_EVENT_NAME)
         (filter (\<lambda>f. \<not> excluded k sv f) filesToSync)
       @ map (\<lambda>f. createFilePayload k sv f platformData projectData UNLINK_EVENT_NAME) filesToRemove
   \<and> (\<forall>f a b. f \<in> set (filter (\<lambda>f. \<not> excluded k sv f) filesToSync) \<longrightarrow>
         f \<in> set filesToSync \<and>
         f \<noteq> a @ TNS_MODULES_FOLDER_NAME k @ b \<and> f \<noteq> a @ APP_RESOURCES_FOLDER_NAME k @ b \<and>
         path_extname sv f \<notin> set [''.ts'', ''.sass'', ''.scss'', ''.less''])"
proof -
  have eq: "filter (\<lambda>f. path_extname sv f \<notin> set excludedFileExtensions)
              (filter (\<lambda>f. path_basename sv f \<notin> set excludedFiles)
                 (filter (\<lambda>f. indexOf f (APP_RESOURCES_FOLDER_NAME k) = - 1)
                    (filter (\<lambda>f. indexOf f (TNS_MODULES_FOLDER_NAME k) = - 1) filesToSync)))
            = filter (\<lambda>f. \<not> excluded k sv f) filesToSync"
    unfolding filter_filter excluded_def indexOf_occursIn by (rule filter_cong) auto
  have "f \<noteq> a @ TNS_MODULES_FOLDER_NAME k @ b \<and> f \<noteq> a @ APP_RESOURCES_FOLDER_NAME k @ b \<and>
         path_extname sv f \<notin> set [''.ts'', ''.sass'', ''.scss'', ''.less'']"
    if "\<not> excluded k sv f" for f a b
    using that occursIn_iff [of "TNS_MODULES_FOLDER_NAME k" f]
      occursIn_iff [of "APP_RESOURCES_FOLDER_NAME k" f]
    unfolding excluded_def excludedFileExtensions_def by blast
  then show ?thesis
    unfolding getFilesPayload_def Let_def eq by auto
qed

text \<open>
  Witness for C9 (amended): of three files to sync, one under \<^verbatim>\<open>tns_modules\<close> and one
  with the extension \<^verbatim>\<open>.ts\<close>, only \<^verbatim>\<open>main.js\<close> gets a change entry.
\<close>

theorem change_entries_skip_excluded_files_witness:
  "files (getFilesPayload sampleConstants sampleServices
     \<lparr>appDestinationDirectoryPath = ''out'', normalizedPlatformName = ''Android''\<rparr>
     \<lparr>projectDir = ''proj''\<rparr>
     [''out/app/main.js'', ''out/app/tns_modules/x.js'', ''out/app/b.ts''] [])
   = [\<lparr>event = ''change'', file' = ''main.js'', binary = False, fileContents = ''out/app/main.js''\<rparr>]"
proof -
  have "filter (\<lambda>f. \<not> excluded sampleConstants sampleServices f)
          [''out/app/main.js'', ''out/app/tns_modules/x.js'', ''out/app/b.ts'']
        = [''out/app/main.js'']"
    by (simp add: excluded_def sampleConstants_def sampleServices_def sample_basename_def
        sample_extname_def excludedFiles_def excludedFileExtensions_def Let_def)
  with change_entries_skip_excluded_files [of sampleConstants sampleServices
      "\<lparr>appDestinationDirectoryPath = ''out'', normalizedPlatformName = ''Android''\<rparr>"
      "\<lparr>projectDir = ''proj''\<rparr>"
      "[''out/app/main.js'', ''out/app/tns_modules/x.js'', ''out/app/b.ts'']" "[]"]
  have "files (getFilesPayload sampleConstants sampleServices
     \<lparr>appDestinationDirectoryPath = ''out'', normalizedPlatformName = ''Android''\<rparr>
     \<lparr>projectDir = ''proj''\<rparr>
     [''out/app/main.js'', ''out/app/tns_modules/x.js'', ''out/app/b.ts''] [])
    = [createFilePayload sampleConstants sampleServices ''out/app/main.js''
        \<lparr>appDestinationDirectoryPath = ''out'', normalizedPlatformName = ''Android''\<rparr>
        \<lparr>projectDir = ''proj''\<rparr> CHANGE_EVENT_NAME]"
    by simp
  then show ?thesis
    by (simp add: createFilePayload_def sampleConstants_def sampleServices_def
        CHANGE_EVENT_NAME_def sample_relative_def sample_join_def sample_dirname_def
        sample_basename_def sample_info_def sample_false_def Let_def)
qed

subsection \<open>Initialization per device\<close>

lemma pending_step:
  assumes "deviceInitializationPromise s d = Some (Some p)" "\<not> settles p e"
  shows "deviceInitializationPromise (initialization_step e s) d = Some (Some p)
       \<and> filter (\<lambda>x. x = d) (initializations (initialization_step e s))
            = filter (\<lambda>x. x = d) (initializations s)"
proof (cases e)
  case (DeviceConnected device)
  show ?thesis
  proof (cases device)
    case None
    with DeviceConnected assms show ?thesis by (simp add: deviceConnected_def)
  next
    case (Some d')
    show ?thesis
    proof (cases "id' d' = d")
      case True
      with DeviceConnected Some assms show ?thesis by (simp add: deviceConnected_def)
    next
      case False
      with DeviceConnected Some assms show ?thesis
        by (auto simp: deviceConnected_def startInitialization_def Let_def split: option.splits)
    qed
  qed
next
  case (InitializationSettled q outcome)
  with assms have "q \<noteq> p" by simp
  with InitializationSettled assms show ?thesis
    by (auto simp: initializationSettled_def)
qed

lemma pending_run:
  assumes "deviceInitializationPromise s d = Some (Some p)" "\<forall>e\<in>set es. \<not> settles p e"
  shows "deviceInitializationPromise (initialization_run es s) d = Some (Some p)
       \<and> filter (\<lambda>x. x = d) (initializations (initialization_run es s))
            = filter (\<lambda>x. x = d) (initializations s)"
  using assms
proof (induction es arbitrary: s)
  case Nil
  then show ?case by simp
next
  case (Cons e es)
  from Cons.prems have ne: "\<not> settles p e" and rest: "\<forall>e\<in>set es. \<not> settles p e"
    by auto
  from pending_step [OF Cons.prems(1) ne] Cons.IH [OF _ rest] show ?case by simp
qed

lemma initializations_grow:
  "length (initializations s) \<le> length (initializations (initialization_run es s))
   \<and> take (length (initializations s)) (initializations (initialization_run es s)) = initializations s"
proof (induction es arbitrary: s)
  case Nil
  show ?case by simp
next
  case (Cons e es)
  have step: "\<exists>xs. initializations (initialization_step e s) = initializations s @ xs"
    by (cases e)
       (auto simp: deviceConnected_def startInitialization_def initializationSettled_def Let_def
             split: option.splits)
  then obtain xs where xs: "initializations (initialization_step e s) = initializations s @ xs" ..
  from Cons.IH [of "initialization_step e s"] xs show ?case
    by (auto simp: take_append dest: arg_cong [where f = "take (length (initializations s))"])
qed

text \<open>
  For a device whose identifier is none of the inherited names the callback behaves as a
  dictionary of promises should. Let the entry of the device be free when the device
  connects: the callback calls \<^verbatim>\<open>initializePreviewForDevice\<close> and stores its promise.
  Whatever happens before that promise is settled, every further call of the callback for
  the device returns the same pending promise and \<^verbatim>\<open>initializePreviewForDevice\<close> is not
  called again for the device. When the promise is settled, fulfilled or rejected, the
  entry is set to \<^verbatim>\<open>null\<close>, and the next call for the device starts a new initialization.
\<close>

lemma one_initialization_per_session:
  assumes own: "id' d \<notin> set inheritedNames"
    and free: "\<forall>q. deviceInitializationPromise s (id' d) \<noteq> Some (Some q)"
    and pending: "\<forall>e\<in>set es. \<not> settles (length (initializations s)) e"
    and same: "id' d2 = id' d"
  shows "deviceConnected (Some d) s
           = (Inr (InitializationPromise (length (initializations s))),
              snd (deviceConnected (Some d) s))
     \<and> deviceConnected (Some d2) (initialization_run es (snd (deviceConnected (Some d) s)))
           = (Inr (InitializationPromise (length (initializations s))),
              initialization_run es (snd (deviceConnected (Some d) s)))
     \<and> filter (\<lambda>x. x = id' d)
          (initializations (initialization_run es (snd (deviceConnected (Some d) s))))
           = filter (\<lambda>x. x = id' d) (initializations s) @ [id' d]
     \<and> deviceInitializationPromise
          (initializationSettled (length (initializations s)) outcome
             (initialization_run es (snd (deviceConnected (Some d) s)))) (id' d) = Some None
     \<and> outcomes
          (initializationSettled (length (initializations s)) outcome
             (initialization_run es (snd (deviceConnected (Some d) s))))
          (length (initializations s)) = Some outcome
     \<and> fst (deviceConnected (Some d2)
          (initializationSettled (length (initializations s)) outcome
             (initialization_run es (snd (deviceConnected (Some d) s)))))
           = Inr (InitializationPromise
                    (length (initializations (initialization_run es (snd (deviceConnected (Some d) s))))))
     \<and> length (initializations s)
           < length (initializations (initialization_run es (snd (deviceConnected (Some d) s))))"
proof -
  let ?p = "length (initializations s)"
  let ?s1 = "snd (deviceConnected (Some d) s)"
  let ?s2 = "initialization_run es ?s1"
  let ?s3 = "initializationSettled ?p outcome ?s2"
  have first: "deviceConnected (Some d) s = (Inr (InitializationPromise ?p), ?s1)"
    using free own
    by (auto simp: deviceConnected_def startInitialization_def Let_def split: option.splits)
  have s1: "deviceInitializationPromise ?s1 (id' d) = Some (Some ?p)"
      "initializations ?s1 = initializations s @ [id' d]"
    using free own
    by (auto simp: deviceConnected_def startInitialization_def Let_def split: option.splits)
  from pending_run [OF s1(1) pending]
  have s2: "deviceInitializationPromise ?s2 (id' d) = Some (Some ?p)"
    and cnt: "filter (\<lambda>x. x = id' d) (initializations ?s2)
                = filter (\<lambda>x. x = id' d) (initializations ?s1)"
    by auto
  have again: "deviceConnected (Some d2) ?s2 = (Inr (InitializationPromise ?p), ?s2)"
    using s2 same by (simp add: deviceConnected_def)
  from initializations_grow [of ?s1 es] s1(2)
  have len: "?p < length (initializations ?s2)"
    and nth: "initializations ?s2 ! ?p = id' d"
    by (auto simp: nth_append dest: arg_cong [where f = "\<lambda>xs. xs ! ?p"])
  have s3: "deviceInitializationPromise ?s3 (id' d) = Some None"
      "initializations ?s3 = initializations ?s2"
      "outcomes ?s3 ?p = Some outcome"
    using s2 len nth by (simp_all add: initializationSettled_def)
  have fresh: "fst (deviceConnected (Some d2) ?s3)
                 = Inr (InitializationPromise (length (initializations ?s2)))"
    using s3 same by (simp add: deviceConnected_def startInitialization_def Let_def)
  show ?thesis
    using first again cnt s1(2) s3(1) s3(3) fresh len by simp
qed

text \<open>
  An instance: \<open>device-1\<close> connects three times, with another device in between, before
  its initialization fails; then it connects again.
\<close>

lemma one_initialization_per_session_example:
  "fst (deviceConnected (Some \<lparr>id' = ''device-1'', devicePlatform' = ''ios''\<rparr>) newInitializations)
     = Inr (InitializationPromise 0)
   \<and> fst (deviceConnected (Some \<lparr>id' = ''device-1'', devicePlatform' = ''ios''\<rparr>)
       (initialization_run
          [DeviceConnected (Some \<lparr>id' = ''device-1'', devicePlatform' = ''ios''\<rparr>),
           DeviceConnected (Some \<lparr>id' = ''device-2'', devicePlatform' = ''android''\<rparr>)]
          (snd (deviceConnected (Some \<lparr>id' = ''device-1'', devicePlatform' = ''ios''\<rparr>)
                  newInitializations))))
     = Inr (InitializationPromise 0)
   \<and> initializations
       (initialization_run
          [DeviceConnected (Some \<lparr>id' = ''device-1'', devicePlatform' = ''ios''\<rparr>),
           DeviceConnected (Some \<lparr>id' = ''device-2'', devicePlatform' = ''android''\<rparr>)]
          (snd (deviceConnected (Some \<lparr>id' = ''device-1'', devicePlatform' = ''ios''\<rparr>)
                  newInitializations)))
     = [''device-1'', ''device-2'']
   \<and> fst (deviceConnected (Some \<lparr>id' = ''device-1'', devicePlatform' = ''ios''\<rparr>)
       (initializationSettled 0 (Inl (Error ''plugins differ''))
          (initialization_run
             [DeviceConnected (Some \<lparr>id' = ''device-1'', devicePlatform' = ''ios''\<rparr>),
              DeviceConnected (Some \<lparr>id' = ''device-2'', devicePlatform' = ''android''\<rparr>)]
             (snd (deviceConnected (Some \<lparr>id' = ''device-1'', devicePlatform' = ''ios''\<rparr>)
                     newInitializations)))))
     = Inr (InitializationPromise 2)"
proof -
  let ?d = "\<lparr>id' = ''device-1'', devicePlatform' = ''ios''\<rparr>"
  let ?es = "[DeviceConnected (Some ?d),
              DeviceConnected (Some \<lparr>id' = ''device-2'', devicePlatform' = ''android''\<rparr>)]"
  have own: "id' ?d \<notin> set inheritedNames"
    by (simp add: inheritedNames_def)
  have free: "\<forall>q. deviceInitializationPromise newInitializations (id' ?d) \<noteq> Some (Some q)"
    by (simp add: newInitializations_def)
  have pending: "\<forall>e\<in>set ?es. \<not> settles (length (initializations newInitializations)) e"
    by simp
  have len: "length (initializations newInitializations) = 0"
    by (simp add: newInitializations_def)
  have inits: "initializations (initialization_run ?es (snd (deviceConnected (Some ?d) newInitializations)))
      = [''device-1'', ''device-2'']"
    by (simp add: deviceConnected_def startInitialization_def inheritedNames_def
        newInitializations_def Let_def)
  note t = one_initialization_per_session [OF own free pending refl,
      of "Inl (Error ''plugins differ'')"]
  have a: "fst (deviceConnected (Some ?d) newInitializations) = Inr (InitializationPromise 0)"
    using arg_cong [OF t [THEN conjunct1], of fst] by (simp only: fst_conv len)
  have b: "fst (deviceConnected (Some ?d)
              (initialization_run ?es (snd (deviceConnected (Some ?d) newInitializations))))
            = Inr (InitializationPromise 0)"
    using arg_cong [OF t [THEN conjunct2, THEN conjunct1], of fst] by (simp only: fst_conv len)
  have e: "fst (deviceConnected (Some ?d)
              (initializationSettled 0 (Inl (Error ''plugins differ''))
                 (initialization_run ?es (snd (deviceConnected (Some ?d) newInitializations)))))
            = Inr (InitializationPromise 2)"
    using t [THEN conjunct2, THEN conjunct2, THEN conjunct2, THEN conjunct2, THEN conjunct2,
             THEN conjunct1]
    by (simp only: inits len) simp
  show ?thesis
    by (intro conjI) (rule a, rule b, rule inits, rule e)
qed

text \<open>
  Claim C3 does not hold for every device identifier. The dictionary
  \<^verbatim>\<open>deviceInitializationPromise\<close> is created by \<^verbatim>\<open>{}\<close>, so for a device whose identifier is
  \<^verbatim>\<open>constructor\<close> the test \<^verbatim>\<open>this.deviceInitializationPromise[device.id]\<close> finds the inherited
  function \<^verbatim>\<open>Object\<close> when no initialization is in flight: the callback returns that
  function as the result of the call and does not call \<^verbatim>\<open>initializePreviewForDevice\<close>.
  However often the device connects, no initialization is started for it and the state
  of the service stays as the constructor left it; a device called \<open>device-1\<close> starts
  initialization \<open>0\<close> in the same state.
\<close>

theorem inherited_device_id_is_never_initialized:
  "deviceConnected (Some \<lparr>id' = ''constructor'', devicePlatform' = p\<rparr>) newInitializations
     = (Inr (InheritedValue ''constructor''), newInitializations)
   \<and> initialization_run
       (replicate n (DeviceConnected (Some \<lparr>id' = ''constructor'', devicePlatform' = p\<rparr>)))
       newInitializations = newInitializations
   \<and> initializations
       (initialization_run
          (replicate n (DeviceConnected (Some \<lparr>id' = ''constructor'', devicePlatform' = p\<rparr>)))
          newInitializations) = []
   \<and> fst (deviceConnected (Some \<lparr>id' = ''device-1'', devicePlatform' = p\<rparr>) newInitializations)
     = Inr (InitializationPromise 0)
   \<and> initializations
       (snd (deviceConnected (Some \<lparr>id' = ''device-1'', devicePlatform' = p\<rparr>) newInitializations))
     = [''device-1'']"
proof -
  let ?d = "\<lparr>id' = ''constructor'', devicePlatform' = p\<rparr>"
  have one: "deviceConnected (Some ?d) newInitializations
               = (Inr (InheritedValue ''constructor''), newInitializations)"
    by (simp add: deviceConnected_def inheritedNames_def newInitializations_def)
  have run: "initialization_run (replicate n (DeviceConnected (Some ?d))) newInitializations
               = newInitializations"
    by (induction n) (simp_all add: one)
  have empty: "initializations newInitializations = []"
    by (simp add: newInitializations_def)
  have other: "deviceConnected (Some \<lparr>id' = ''device-1'', devicePlatform' = p\<rparr>) newInitializations
      = (Inr (InitializationPromise 0),
         newInitializations\<lparr>deviceInitializationPromise := [''device-1'' \<mapsto> Some 0],
                             initializations := [''device-1'']\<rparr>)"
    by (simp add: deviceConnected_def startInitialization_def inheritedNames_def
        newInitializations_def Let_def)
  show ?thesis
    unfolding run one other using empty by simp
qed

subsection \<open>Sync cycles started by the hook\<close>











text \<open>
  Two calls of \<^verbatim>\<open>startSyncFilesTimeout\<close> made in one turn of the hook while no cycle is
  running: both callbacks are given to the same fulfilled promise, and both start a cycle
  when the turn ends.
\<close>

lemma two_requests_in_one_turn:
  "map cyclePlatform (cycles (sync_run [HookTurn [SyncRequest ''ios'', SyncRequest ''android'']]
      initialSync)) = [''ios'', ''android'']
   \<and> waiting (sync_run [HookTurn [SyncRequest ''ios'', SyncRequest ''android'']] initialSync) = []"
  by code_simp




end
